theory Spec2Isabelle
  imports Main
begin

section \<open>Values shared with the JavaScript source\<close>

text \<open>
  A thrown JavaScript \<open>Error\<close> is modelled by its message. A function of the source that
  may throw returns \<open>error + 'a\<close>, with \<open>Inl\<close> for the thrown error.
\<close>

datatype error = Error (message: string)

text \<open>Decimal rendering of a number inside a template literal.\<close>

definition digitChar :: "nat \<Rightarrow> char" where
  "digitChar d = ''0123456789'' ! d"

function showNat :: "nat \<Rightarrow> string" where
  "showNat n = (if n < 10 then [digitChar n] else showNat (n div 10) @ [digitChar (n mod 10)])"
  by pat_completeness auto
termination
  by (relation "measure (\<lambda>n. n)") auto

declare showNat.simps [simp del]

text \<open>A value interpolated into a template literal: \<open>undefined\<close> prints as the word.\<close>

definition jsStr :: "string option \<Rightarrow> string" where
  "jsStr v = (case v of None \<Rightarrow> ''undefined'' | Some s \<Rightarrow> s)"

text \<open>
  The numbers of a schedule are kept as \<open>nat\<close>: counters, and cadence fields holding whole
  numbers that a template literal prints in decimal (below \<open>10^21\<close>). Negative, fractional
  and larger numbers are outside the model.
\<close>

definition jsNum :: "nat option \<Rightarrow> string" where
  "jsNum v = (case v of None \<Rightarrow> ''undefined'' | Some n \<Rightarrow> showNat n)"

text \<open>\<open>String.prototype.split\<close> with a one-character separator: never an empty array.\<close>

fun splitOn :: "char \<Rightarrow> string \<Rightarrow> string list" where
  "splitOn sep [] = [[]]"
| "splitOn sep (c # cs) =
     (if c = sep then [] # splitOn sep cs
      else (case splitOn sep cs of [] \<Rightarrow> [[c]] | w # ws \<Rightarrow> (c # w) # ws))"

text \<open>\<open>Array.prototype.join\<close> on an array of numbers.\<close>

fun joinWith :: "string \<Rightarrow> string list \<Rightarrow> string" where
  "joinWith sep [] = []"
| "joinWith sep [x] = x"
| "joinWith sep (x # y # ys) = x @ sep @ joinWith sep (y # ys)"

section \<open>Documents\<close>

record flowDataDoc =
  fd_data :: "string option"

datatype flowPayload = RawData string | WholeDoc flowDataDoc

text \<open>
  A flow as \<open>populate\<close> delivers it: \<open>flowDataId\<close> already holds the referenced
  document, or nothing when the reference is empty. Payloads are opaque serialised objects.
\<close>

record flow =
  flow_id :: string
  flow_name :: string
  flowData :: "flowPayload option"
  flowDataId :: "flowDataDoc option"

type_synonym inputs = "(string \<times> string) list"

text \<open>
  A \<open>FlowSchedule\<close> document. Fields that the source reads with a fallback or that may be
  absent are options; timestamps are milliseconds.
\<close>

record schedule =
  sched_id :: string
  flowId :: string
  userId :: string
  scheduleType :: "string option"
  cronExpression :: "string option"
  intervalValue :: "nat option"
  intervalUnit :: "string option"
  time :: "string option"
  daysOfWeek :: "nat list option"
  dayOfMonth :: "nat option"
  timezone :: "string option"
  enabled :: bool
  inputData :: "inputs option"
  nextExecutionAt :: "nat option"
  lastExecutedAt :: "nat option"
  lastExecutionStatus :: string
  executionCount :: nat
  maxExecutions :: "nat option"
  consecutiveFailures :: "nat option"
  isCurrentlyRunning :: bool
  currentExecutionId :: "string option"
  pausedReason :: "string option"
  expiresAt :: "nat option"

section \<open>toCronExpression\<close>

text \<open>
  \<open>const [hour, minute] = schedule.time.split(':')\<close>: reading \<open>split\<close> of an absent
  \<open>time\<close> throws a TypeError; a missing second part destructures to \<open>undefined\<close>.
\<close>

definition splitTime :: "string option \<Rightarrow> error + (string option \<times> string option)" where
  "splitTime t =
     (case t of
        None \<Rightarrow> Inl (Error ''Cannot read properties of undefined (reading 'split')'')
      | Some s \<Rightarrow>
          (case splitOn CHR '':'' s of
             [] \<Rightarrow> Inr (None, None)
           | [h] \<Rightarrow> Inr (Some h, None)
           | h # m # _ \<Rightarrow> Inr (Some h, Some m)))"

definition toCronExpression :: "schedule \<Rightarrow> error + string option" where
  "toCronExpression s =
     (if scheduleType s = Some ''cron'' then Inr (cronExpression s)
      else if scheduleType s = Some ''interval'' then
        (if intervalUnit s = Some ''minutes'' then
           Inr (Some (''*/'' @ jsNum (intervalValue s) @ '' * * * *''))
         else if intervalUnit s = Some ''hours'' then
           Inr (Some (''0 */'' @ jsNum (intervalValue s) @ '' * * *''))
         else if intervalUnit s = Some ''days'' then
           Inr (Some (''0 0 */'' @ jsNum (intervalValue s) @ '' * *''))
         else Inl (Error (''Unknown interval unit: '' @ jsStr (intervalUnit s))))
      else if scheduleType s = Some ''daily'' then
        (case splitTime (time s) of
           Inl e \<Rightarrow> Inl e
         | Inr (hour, minute) \<Rightarrow> Inr (Some (jsStr minute @ '' '' @ jsStr hour @ '' * * *'')))
      else if scheduleType s = Some ''weekly'' then
        (case splitTime (time s) of
           Inl e \<Rightarrow> Inl e
         | Inr (hour, minute) \<Rightarrow>
             (case daysOfWeek s of
                None \<Rightarrow> Inl (Error ''Cannot read properties of undefined (reading 'join')'')
              | Some ds \<Rightarrow>
                  Inr (Some (jsStr minute @ '' '' @ jsStr hour @ '' * * ''
                             @ joinWith '','' (map showNat ds)))))
      else if scheduleType s = Some ''monthly'' then
        (case splitTime (time s) of
           Inl e \<Rightarrow> Inl e
         | Inr (hour, minute) \<Rightarrow>
             Inr (Some (jsStr minute @ '' '' @ jsStr hour @ '' '' @ jsNum (dayOfMonth s)
                        @ '' * *'')))
      else Inl (Error (''Unknown schedule type: '' @ jsStr (scheduleType s))))"

section \<open>The scheduler and the world around it\<close>

text \<open>
  A task handle of the trigger primitive: the expression and timezone it was created with,
  the schedule id its callback fires \<open>executeScheduledFlow\<close> for, and whether it is
  still started.
\<close>

record cronTask =
  task_expr :: "string option"
  task_timezone :: string
  task_sid :: string
  running :: bool

text \<open>Console output, one constructor per message of the source.\<close>

datatype logline =
    AlreadyInitialized
  | InitializedWith nat
  | InitFailed error
  | Registered string "string option"
  | RegisterFailed string error
  | Unregistered string
  | NotFoundOrDisabled string
  | SkippingRunning string
  | ExecutingFlow string string
  | OriginalInputs "inputs option"
  | ResolvedInputs inputs
  | PausedMaxExecutions string
  | ExecutedOk string
  | ScheduleFailed string error
  | PausedFailures string

text \<open>Every effect on the outside world, in the order the source performs them.\<close>

datatype event =
    DbFind
  | DbFindById string
  | DbSave string
  | ExecuteFlow string
  | CronSchedule "string option"
  | TaskStop nat
  | Log logline

text \<open>
  The state: the two fields of \<open>SchedulerService\<close> (\<open>jobs\<close> maps a schedule id to the
  index of its task in \<open>cronTasks\<close>), the tasks the trigger primitive has created, the two
  collections of the store, and the trace of effects so far.
\<close>

record state =
  jobs :: "string \<rightharpoonup> nat"
  initialized :: bool
  cronTasks :: "cronTask list"
  schedules :: "schedule list"
  flows :: "flow list"
  trace :: "event list"

text \<open>
  The behaviour of everything outside the file. An effect is told apart by the number of
  effects before it, so a collaborator may answer differently each time it is called.
  \<open>calculateNextExecution\<close>, \<open>resolveDynamicInputs\<close> and \<open>flowExecutor.executeFlow\<close>
  belong to modules whose code is not part of the scheduler: each is a parameter that
  may throw.
\<close>

record env =
  findFails :: "nat \<Rightarrow> error option"
  saveFails :: "nat \<Rightarrow> error option"
  cronRejects :: "string option \<Rightarrow> error option"
  calculateNextExecution :: "nat \<Rightarrow> schedule \<Rightarrow> error + nat option"
  resolveDynamicInputs ::
    "nat \<Rightarrow> inputs \<Rightarrow> flow \<Rightarrow> nat option \<Rightarrow> string \<Rightarrow> error + inputs"
  executeFlow :: "nat \<Rightarrow> flow \<Rightarrow> inputs \<Rightarrow> string \<Rightarrow> string \<Rightarrow> string \<Rightarrow> error option"
  now :: "nat \<Rightarrow> nat"

definition effect :: "event \<Rightarrow> state \<Rightarrow> state" where
  "effect e st = st\<lparr>trace := trace st @ [e]\<rparr>"

definition tick :: "state \<Rightarrow> nat" where
  "tick st = length (trace st)"

subsection \<open>The store\<close>

definition findById_raw :: "string \<Rightarrow> schedule list \<Rightarrow> schedule option" where
  "findById_raw i docs = List.find (\<lambda>d. sched_id d = i) docs"

definition populate :: "state \<Rightarrow> schedule \<Rightarrow> flow option" where
  "populate st s = List.find (\<lambda>f. flow_id f = flowId s) (flows st)"

definition save_raw :: "schedule \<Rightarrow> schedule list \<Rightarrow> schedule list" where
  "save_raw s docs =
     (if findById_raw (sched_id s) docs = None then docs @ [s]
      else map (\<lambda>d. if sched_id d = sched_id s then s else d) docs)"

text \<open>\<open>await schedule.save()\<close>: throws, or writes the document under its id.\<close>

definition saveDoc :: "env \<Rightarrow> schedule \<Rightarrow> state \<Rightarrow> (error + unit) \<times> state" where
  "saveDoc env s st =
     (case saveFails env (tick st) of
        Some e \<Rightarrow> (Inl e, effect (DbSave (sched_id s)) st)
      | None \<Rightarrow>
          (Inr (), effect (DbSave (sched_id s)) (st\<lparr>schedules := save_raw s (schedules st)\<rparr>)))"

text \<open>\<open>schedule.timezone || 'UTC'\<close>: the empty string is falsy too.\<close>

definition timezoneOrUTC :: "schedule \<Rightarrow> string" where
  "timezoneOrUTC s =
     (case timezone s of None \<Rightarrow> ''UTC'' | Some z \<Rightarrow> (if z = [] then ''UTC'' else z))"

subsection \<open>unregisterSchedule and registerSchedule\<close>

definition stopTask :: "nat \<Rightarrow> cronTask list \<Rightarrow> cronTask list" where
  "stopTask t ts = (if t < length ts then ts[t := (ts ! t)\<lparr>running := False\<rparr>] else ts)"

definition unregisterSchedule :: "string \<Rightarrow> state \<Rightarrow> state" where
  "unregisterSchedule scheduleId st =
     (case jobs st scheduleId of
        None \<Rightarrow> st
      | Some t \<Rightarrow>
          effect (Log (Unregistered scheduleId))
            (effect (TaskStop t)
               (st\<lparr>cronTasks := stopTask t (cronTasks st),
                    jobs := (jobs st)(scheduleId := None)\<rparr>)))"

text \<open>
  From \<open>cron.schedule\<close> to the end of the \<open>try\<close> block of \<open>registerSchedule\<close>: the
  part of a registration that runs after its only \<open>await\<close>, without yielding.
\<close>

definition createTrigger ::
  "env \<Rightarrow> string \<Rightarrow> schedule \<Rightarrow> string option \<Rightarrow> state \<Rightarrow> (error + unit) \<times> state" where
  "createTrigger env scheduleId s cronExpr st =
     (case cronRejects env cronExpr of
        Some e \<Rightarrow> (Inl e, effect (CronSchedule cronExpr) st)
      | None \<Rightarrow>
          (Inr (),
           effect (Log (Registered scheduleId cronExpr))
             (effect (CronSchedule cronExpr)
                (st\<lparr>cronTasks := cronTasks st @
                        [\<lparr>task_expr = cronExpr, task_timezone = timezoneOrUTC s,
                          task_sid = scheduleId, running = True\<rparr>],
                      jobs := (jobs st)(scheduleId \<mapsto> length (cronTasks st))\<rparr>))))"

text \<open>The body of the \<open>try\<close> of \<open>registerSchedule\<close>.\<close>

definition registerBody :: "env \<Rightarrow> string \<Rightarrow> schedule \<Rightarrow> state \<Rightarrow> (error + unit) \<times> state" where
  "registerBody env scheduleId s st =
     (case toCronExpression s of
        Inl e \<Rightarrow> (Inl e, st)
      | Inr cronExpr \<Rightarrow>
          (case (if nextExecutionAt s = None then
                   (case calculateNextExecution env (tick st) s of
                      Inl e \<Rightarrow> (Inl e, st)
                    | Inr nxt \<Rightarrow> saveDoc env (s\<lparr>nextExecutionAt := nxt\<rparr>) st)
                 else (Inr (), st)) of
             (Inl e, st1) \<Rightarrow> (Inl e, st1)
           | (Inr _, st1) \<Rightarrow> createTrigger env scheduleId s cronExpr st1))"

text \<open>A call of \<open>registerSchedule\<close> that no other call interrupts.\<close>

definition registerSchedule :: "env \<Rightarrow> schedule \<Rightarrow> state \<Rightarrow> (error + unit) \<times> state" where
  "registerSchedule env s st =
     (let scheduleId = sched_id s;
          st0 = (if jobs st scheduleId \<noteq> None then unregisterSchedule scheduleId st else st)
      in case registerBody env scheduleId s st0 of
           (Inl e, st1) \<Rightarrow> (Inl e, effect (Log (RegisterFailed scheduleId e)) st1)
         | (Inr u, st1) \<Rightarrow> (Inr u, st1))"

text \<open>
  \<open>registerSchedule\<close> yields to other calls at \<open>await schedule.save()\<close>, between its
  test \<open>this.jobs.has(scheduleId)\<close> and its \<open>this.jobs.set(scheduleId, task)\<close>, when
  nextExecutionAt is unset. \<open>registerUntilAwait\<close> is the call up to that point: the cron
  expression it has computed and the state in which it waits, once its save has been
  accepted (\<open>None\<close> when the call does not get there). \<open>registerAfterAwait\<close> is the rest
  of the call, run in whatever state the calls in between have left.
\<close>

definition registerUntilAwait ::
  "env \<Rightarrow> schedule \<Rightarrow> state \<Rightarrow> (string option \<times> state) option" where
  "registerUntilAwait env s st =
     (let scheduleId = sched_id s;
          st0 = (if jobs st scheduleId \<noteq> None then unregisterSchedule scheduleId st else st)
      in case toCronExpression s of
           Inl e \<Rightarrow> None
         | Inr cronExpr \<Rightarrow>
             (if nextExecutionAt s = None then
                (case calculateNextExecution env (tick st0) s of
                   Inl e \<Rightarrow> None
                 | Inr nxt \<Rightarrow>
                     (case saveDoc env (s\<lparr>nextExecutionAt := nxt\<rparr>) st0 of
                        (Inl e, st1) \<Rightarrow> None
                      | (Inr _, st1) \<Rightarrow> Some (cronExpr, st1)))
              else None))"

definition registerAfterAwait ::
  "env \<Rightarrow> schedule \<Rightarrow> string option \<Rightarrow> state \<Rightarrow> (error + unit) \<times> state" where
  "registerAfterAwait env s cronExpr st =
     (case createTrigger env (sched_id s) s cronExpr st of
        (Inl e, st1) \<Rightarrow> (Inl e, effect (Log (RegisterFailed (sched_id s) e)) st1)
      | (Inr u, st1) \<Rightarrow> (Inr u, st1))"

subsection \<open>executeScheduledFlow\<close>

text \<open>
  \<open>if (!flow.flowData && flow.flowDataId) flow.flowData = flow.flowDataId.data || flow.flowDataId\<close>:
  a document is truthy, a missing value and the empty string are falsy.
\<close>

definition mapFlowData :: "flow \<Rightarrow> flow" where
  "mapFlowData f =
     (if flowData f = None \<or> flowData f = Some (RawData []) then
        (case flowDataId f of
           None \<Rightarrow> f
         | Some d \<Rightarrow>
             f\<lparr>flowData :=
                 Some (case fd_data d of
                         None \<Rightarrow> WholeDoc d
                       | Some x \<Rightarrow> if x = [] then WholeDoc d else RawData x)\<rparr>)
      else f)"

text \<open>\<open>schedule.maxExecutions && schedule.executionCount >= schedule.maxExecutions\<close>\<close>

definition maxReached :: "schedule \<Rightarrow> bool" where
  "maxReached s =
     (case maxExecutions s of None \<Rightarrow> False | Some m \<Rightarrow> m \<noteq> 0 \<and> m \<le> executionCount s)"

text \<open>
  The parts of the \<open>try\<close> block return how the block ended (\<open>Inl\<close>: it threw), the value
  the variable \<open>schedule\<close> holds at that moment, and the state.
\<close>

type_synonym tried = "(error + unit) \<times> schedule option \<times> state"

text \<open>From \<open>schedule.lastExecutedAt = new Date()\<close> to the end of the \<open>try\<close> block.\<close>

definition recordSuccess :: "env \<Rightarrow> string \<Rightarrow> schedule \<Rightarrow> state \<Rightarrow> tried" where
  "recordSuccess env scheduleId s st =
     (let s1 = s\<lparr>lastExecutedAt := Some (now env (tick st)),
                 executionCount := executionCount s + 1,
                 lastExecutionStatus := ''success'',
                 consecutiveFailures := Some 0\<rparr>
      in case calculateNextExecution env (tick st) s1 of
           Inl e \<Rightarrow> (Inl e, Some s1, st)
         | Inr nxt \<Rightarrow>
             (let s2 = s1\<lparr>nextExecutionAt := nxt, isCurrentlyRunning := False,
                          currentExecutionId := None\<rparr>;
                  s3 = (if maxReached s2
                        then s2\<lparr>enabled := False, pausedReason := Some ''Max executions reached''\<rparr>
                        else s2);
                  st1 = (if maxReached s2
                         then effect (Log (PausedMaxExecutions scheduleId))
                                (unregisterSchedule scheduleId st)
                         else st)
              in case saveDoc env s3 st1 of
                   (Inl e, st2) \<Rightarrow> (Inl e, Some s3, st2)
                 | (Inr _, st2) \<Rightarrow> (Inr (), Some s3, effect (Log (ExecutedOk scheduleId)) st2)))"

text \<open>From \<open>schedule.isCurrentlyRunning = true\<close> to the call of the flow executor.\<close>

definition runFlow :: "env \<Rightarrow> string \<Rightarrow> schedule \<Rightarrow> flow option \<Rightarrow> state \<Rightarrow> tried" where
  "runFlow env scheduleId s0 fl st =
     (let s = s0\<lparr>isCurrentlyRunning := True\<rparr>
      in case saveDoc env s st of
           (Inl e, st1) \<Rightarrow> (Inl e, Some s, st1)
         | (Inr _, st1) \<Rightarrow>
             (case fl of
                None \<Rightarrow> (Inl (Error ''Flow not found''), Some s, st1)
              | Some f0 \<Rightarrow>
                  (let f = mapFlowData f0;
                       st2 = effect (Log (ExecutingFlow (flow_name f) scheduleId)) st1
                   in case resolveDynamicInputs env (tick st2)
                             (case inputData s of None \<Rightarrow> [] | Some i \<Rightarrow> i) f
                             (lastExecutedAt s) (timezoneOrUTC s) of
                        Inl e \<Rightarrow> (Inl e, Some s, st2)
                      | Inr resolved \<Rightarrow>
                          (let st3 = effect (Log (ResolvedInputs resolved))
                                       (effect (Log (OriginalInputs (inputData s))) st2);
                               st4 = effect (ExecuteFlow scheduleId) st3
                           in case executeFlow env (tick st3) f resolved (userId s)
                                     ''schedule'' scheduleId of
                                Some e \<Rightarrow> (Inl e, Some s, st4)
                              | None \<Rightarrow> recordSuccess env scheduleId s st4))))"

definition tryBlock :: "env \<Rightarrow> string \<Rightarrow> state \<Rightarrow> tried" where
  "tryBlock env scheduleId st =
     (let st1 = effect (DbFindById scheduleId) st
      in case findFails env (tick st) of
           Some e \<Rightarrow> (Inl e, None, st1)
         | None \<Rightarrow>
             (case findById_raw scheduleId (schedules st) of
                None \<Rightarrow> (Inr (), None, effect (Log (NotFoundOrDisabled scheduleId)) st1)
              | Some s \<Rightarrow>
                  if \<not> enabled s
                  then (Inr (), Some s, effect (Log (NotFoundOrDisabled scheduleId)) st1)
                  else if isCurrentlyRunning s
                  then (Inr (), Some s, effect (Log (SkippingRunning scheduleId)) st1)
                  else runFlow env scheduleId s (populate st s) st1))"

text \<open>\<open>schedule.consecutiveFailures || 0\<close>\<close>

definition failuresSoFar :: "schedule \<Rightarrow> nat" where
  "failuresSoFar s = (case consecutiveFailures s of None \<Rightarrow> 0 | Some k \<Rightarrow> k)"

text \<open>The body of \<open>if (schedule) { ... }\<close> in the \<open>catch\<close> block.\<close>

definition recordFailure ::
  "env \<Rightarrow> string \<Rightarrow> error \<Rightarrow> schedule \<Rightarrow> state \<Rightarrow> (error + unit) \<times> state" where
  "recordFailure env scheduleId err s st =
     (let n = failuresSoFar s + 1;
          s1 = s\<lparr>lastExecutedAt := Some (now env (tick st)),
                 lastExecutionStatus := ''failed'',
                 consecutiveFailures := Some n,
                 isCurrentlyRunning := False,
                 currentExecutionId := None\<rparr>
      in if 3 \<le> n then
           saveDoc env
             (s1\<lparr>enabled := False,
                 pausedReason := Some (''Paused after '' @ showNat n
                                       @ '' consecutive failures: '' @ message err)\<rparr>)
             (effect (Log (PausedFailures scheduleId)) (unregisterSchedule scheduleId st))
         else
           (case calculateNextExecution env (tick st) s1 of
              Inl e \<Rightarrow> (Inl e, st)
            | Inr nxt \<Rightarrow> saveDoc env (s1\<lparr>nextExecutionAt := nxt\<rparr>) st))"

text \<open>
  The whole handler. \<open>Inl\<close> in the result is an exception that leaves
  \<open>executeScheduledFlow\<close>: the promise it returns is rejected.
\<close>

definition executeScheduledFlow :: "env \<Rightarrow> string \<Rightarrow> state \<Rightarrow> (error + unit) \<times> state" where
  "executeScheduledFlow env scheduleId st =
     (case tryBlock env scheduleId st of
        (Inr _, _, st1) \<Rightarrow> (Inr (), st1)
      | (Inl err, sv, st1) \<Rightarrow>
          (let st2 = effect (Log (ScheduleFailed scheduleId err)) st1
           in case sv of
                None \<Rightarrow> (Inr (), st2)
              | Some s \<Rightarrow> recordFailure env scheduleId err s st2))"

subsection \<open>reloadSchedule and initialize\<close>

definition reloadSchedule :: "env \<Rightarrow> string \<Rightarrow> state \<Rightarrow> (error + unit) \<times> state" where
  "reloadSchedule env scheduleId st =
     (let st1 = effect (DbFindById scheduleId) st
      in case findFails env (tick st) of
           Some e \<Rightarrow> (Inl e, st1)
         | None \<Rightarrow>
             (case findById_raw scheduleId (schedules st) of
                None \<Rightarrow> (Inl (Error ''Schedule not found''), st1)
              | Some s \<Rightarrow>
                  if enabled s then registerSchedule env s st1
                  else (Inr (), unregisterSchedule scheduleId st1)))"

text \<open>
  The query of \<open>initialize\<close>: enabled schedules whose \<open>expiresAt\<close> is later than now or
  null, each with its flow populated.
\<close>

definition activeSchedules :: "nat \<Rightarrow> state \<Rightarrow> (schedule \<times> flow option) list" where
  "activeSchedules t st =
     map (\<lambda>s. (s, populate st s))
       (filter (\<lambda>s. enabled s \<and> (case expiresAt s of None \<Rightarrow> True | Some x \<Rightarrow> t < x))
          (schedules st))"

text \<open>The \<open>for\<close> loop of \<open>initialize\<close>; a registration that throws ends it.\<close>

fun registerAll ::
  "env \<Rightarrow> (schedule \<times> flow option) list \<Rightarrow> state \<Rightarrow> (error + unit) \<times> state" where
  "registerAll env [] st = (Inr (), st)"
| "registerAll env ((s, fl) # rest) st =
     (if fl = None then registerAll env rest st
      else (case registerSchedule env s st of
              (Inl e, st1) \<Rightarrow> (Inl e, st1)
            | (Inr _, st1) \<Rightarrow> registerAll env rest st1))"

definition initialize :: "env \<Rightarrow> state \<Rightarrow> (error + unit) \<times> state" where
  "initialize env st =
     (if initialized st then (Inr (), effect (Log AlreadyInitialized) st)
      else
        (let st1 = effect DbFind st
         in case findFails env (tick st) of
              Some e \<Rightarrow> (Inl e, effect (Log (InitFailed e)) st1)
            | None \<Rightarrow>
                (let found = activeSchedules (now env (tick st)) st
                 in case registerAll env found st1 of
                      (Inl e, st2) \<Rightarrow> (Inl e, effect (Log (InitFailed e)) st2)
                    | (Inr _, st2) \<Rightarrow>
                        (Inr (),
                         effect (Log (InitializedWith (length found)))
                           (st2\<lparr>initialized := True\<rparr>)))))"

section \<open>Notions used by the properties\<close>

text \<open>The started tasks whose callback fires the schedule \<open>k\<close>.\<close>

definition liveTriggers :: "string \<Rightarrow> state \<Rightarrow> nat list" where
  "liveTriggers k st =
     filter (\<lambda>i. running (cronTasks st ! i) \<and> task_sid (cronTasks st ! i) = k)
       [0..<length (cronTasks st)]"

text \<open>Every started task is the one that \<open>jobs\<close> holds for its schedule id.\<close>

definition jobs_inv :: "state \<Rightarrow> bool" where
  "jobs_inv st =
     list_all
       (\<lambda>i. running (cronTasks st ! i) \<longrightarrow> jobs st (task_sid (cronTasks st ! i)) = Some i)
       [0..<length (cronTasks st)]"

text \<open>
  The states that calls which do not overlap lead to: the scheduler starts with an empty
  \<open>jobs\<close> map and no task, each method runs to its end before the next one starts (with
  any arguments, against any behaviour of the outside), and other parts of the application
  may rewrite the store in between. States in which a second call runs while a first one
  waits at its \<open>await\<close> are not among them.
\<close>

inductive sequential :: "state \<Rightarrow> bool" where
  fresh: "jobs st = Map.empty \<Longrightarrow> \<not> initialized st \<Longrightarrow> cronTasks st = [] \<Longrightarrow> sequential st"
| after_initialize: "sequential st \<Longrightarrow> sequential (snd (initialize env st))"
| after_register: "sequential st \<Longrightarrow> sequential (snd (registerSchedule env s st))"
| after_unregister: "sequential st \<Longrightarrow> sequential (unregisterSchedule k st)"
| after_firing: "sequential st \<Longrightarrow> sequential (snd (executeScheduledFlow env k st))"
| after_reload: "sequential st \<Longrightarrow> sequential (snd (reloadSchedule env k st))"
| after_store_edit: "sequential st \<Longrightarrow> sequential (st\<lparr>schedules := ss, flows := fs\<rparr>)"

text \<open>The fields that decide when a schedule fires.\<close>

definition cadence ::
  "schedule \<Rightarrow> string option \<times> string option \<times> nat option \<times> string option \<times> string option
     \<times> nat list option \<times> nat option \<times> string option" where
  "cadence s = (scheduleType s, cronExpression s, intervalValue s, intervalUnit s, time s,
                daysOfWeek s, dayOfMonth s, timezone s)"

text \<open>The effects a call added to the trace.\<close>

definition newEvents :: "state \<Rightarrow> state \<Rightarrow> event list" where
  "newEvents st st' = drop (length (trace st)) (trace st')"

section \<open>Concrete data\<close>

definition exampleSchedule :: schedule where
  "exampleSchedule =
     \<lparr>sched_id = ''s1'', flowId = ''f1'', userId = ''u1'', scheduleType = Some ''monthly'',
      cronExpression = None, intervalValue = None, intervalUnit = None, time = Some ''00:05'',
      daysOfWeek = None, dayOfMonth = Some 1, timezone = None, enabled = True,
      inputData = None, nextExecutionAt = None, lastExecutedAt = None,
      lastExecutionStatus = ''none'', executionCount = 0, maxExecutions = None,
      consecutiveFailures = None, isCurrentlyRunning = False, currentExecutionId = None,
      pausedReason = None, expiresAt = None\<rparr>"

definition exampleFlow :: flow where
  "exampleFlow =
     \<lparr>flow_id = ''f1'', flow_name = ''report'', flowData = None,
      flowDataId = Some \<lparr>fd_data = Some ''nodes''\<rparr>\<rparr>"

text \<open>An outside world in which nothing throws.\<close>

definition quietEnv :: env where
  "quietEnv =
     \<lparr>findFails = (\<lambda>n. None), saveFails = (\<lambda>n. None), cronRejects = (\<lambda>x. None),
      calculateNextExecution = (\<lambda>n s. Inr (Some (n + 60000))),
      resolveDynamicInputs = (\<lambda>n i f l z. Inr i),
      executeFlow = (\<lambda>n f i u t s. None), now = (\<lambda>n. 1000 + n)\<rparr>"

definition exampleState :: state where
  "exampleState =
     \<lparr>jobs = Map.empty, initialized = False, cronTasks = [],
      schedules = [exampleSchedule], flows = [exampleFlow], trace = []\<rparr>"

text \<open>The example state after \<open>registerSchedule\<close> of the example schedule.\<close>

definition registeredState :: state where
  "registeredState =
     \<lparr>jobs = [''s1'' \<mapsto> 0], initialized = False,
      cronTasks = [\<lparr>task_expr = Some ''05 00 1 * *'', task_timezone = ''UTC'',
                    task_sid = ''s1'', running = True\<rparr>],
      schedules = [exampleSchedule\<lparr>nextExecutionAt := Some 60000\<rparr>], flows = [exampleFlow],
      trace = [DbSave ''s1'', CronSchedule (Some ''05 00 1 * *''),
               Log (Registered ''s1'' (Some ''05 00 1 * *''))]\<rparr>"

text \<open>The same state once the schedule document has been deleted from the store.\<close>

definition orphanedState :: state where
  "orphanedState = registeredState\<lparr>schedules := []\<rparr>"

text \<open>The example state after \<open>initialize\<close>.\<close>

definition initializedState :: state where
  "initializedState =
     registeredState
       \<lparr>initialized := True,
        trace := [DbFind, DbSave ''s1'', CronSchedule (Some ''05 00 1 * *''),
                  Log (Registered ''s1'' (Some ''05 00 1 * *'')), Log (InitializedWith 1)],
        schedules := [exampleSchedule\<lparr>nextExecutionAt := Some 60001\<rparr>]\<rparr>"

text \<open>A registered schedule whose previous firing has not finished.\<close>

definition runningState :: state where
  "runningState =
     registeredState\<lparr>schedules := [exampleSchedule\<lparr>isCurrentlyRunning := True\<rparr>]\<rparr>"

text \<open>The registered schedule after its flow has been deleted.\<close>

definition flowGoneState :: state where
  "flowGoneState = registeredState\<lparr>flows := []\<rparr>"

text \<open>A registered schedule capped at one execution that has failed twice before.\<close>

definition cappedSchedule :: schedule where
  "cappedSchedule =
     exampleSchedule\<lparr>nextExecutionAt := Some 60000, maxExecutions := Some 1,
                     consecutiveFailures := Some 2\<rparr>"

definition cappedState :: state where
  "cappedState = registeredState\<lparr>schedules := [cappedSchedule]\<rparr>"

text \<open>The same schedule with the cap written as 0.\<close>

definition zeroCapState :: state where
  "zeroCapState = registeredState\<lparr>schedules := [cappedSchedule\<lparr>maxExecutions := Some 0\<rparr>]\<rparr>"

text \<open>A registered schedule that has failed twice before, with no cap.\<close>

definition failingState :: state where
  "failingState = registeredState\<lparr>schedules := [cappedSchedule\<lparr>maxExecutions := None\<rparr>]\<rparr>"

text \<open>The flow executor throws.\<close>

definition nodeFailsEnv :: env where
  "nodeFailsEnv = quietEnv\<lparr>executeFlow := (\<lambda>n f i u t s. Some (Error ''node failed''))\<rparr>"

text \<open>
  The flow executor throws and the store stops accepting writes after the first save of
  the firing (the effect numbered 4 after the three effects of the registration).
\<close>

definition storeLostEnv :: env where
  "storeLostEnv =
     nodeFailsEnv\<lparr>saveFails := (\<lambda>n. if n < 5 then None else Some (Error ''store unavailable''))\<rparr>"

text \<open>
  Only the save of the successful outcome throws (the effect numbered 12 when the firing
  has unregistered the schedule for reaching its cap).
\<close>

definition saveOnceFailsEnv :: env where
  "saveOnceFailsEnv =
     quietEnv\<lparr>saveFails := (\<lambda>n. if n = 12 then Some (Error ''write conflict'') else None)\<rparr>"

text \<open>The effects of a firing up to and including the call of the flow executor.\<close>

definition ranFlowEvents :: "event list" where
  "ranFlowEvents =
     [DbFindById ''s1'', DbSave ''s1'', Log (ExecutingFlow ''report'' ''s1''),
      Log (OriginalInputs None), Log (ResolvedInputs []), ExecuteFlow ''s1'']"

definition stoppedTasks :: "cronTask list" where
  "stoppedTasks =
     [\<lparr>task_expr = Some ''05 00 1 * *'', task_timezone = ''UTC'', task_sid = ''s1'',
       running = False\<rparr>]"

text \<open>The states in which the firings of the examples end.\<close>

definition zeroCapAfter :: state where
  "zeroCapAfter =
     zeroCapState
       \<lparr>schedules :=
          [cappedSchedule\<lparr>maxExecutions := Some 0, lastExecutedAt := Some 1009,
                          executionCount := 1, lastExecutionStatus := ''success'',
                          consecutiveFailures := Some 0, nextExecutionAt := Some 60009\<rparr>],
        trace := trace zeroCapState @ ranFlowEvents @ [DbSave ''s1'', Log (ExecutedOk ''s1'')]\<rparr>"

definition cappedAfter :: state where
  "cappedAfter =
     cappedState
       \<lparr>jobs := Map.empty, cronTasks := stoppedTasks,
        schedules :=
          [cappedSchedule\<lparr>lastExecutedAt := Some 1009, executionCount := 1,
                          lastExecutionStatus := ''success'', consecutiveFailures := Some 0,
                          nextExecutionAt := Some 60009, enabled := False,
                          pausedReason := Some ''Max executions reached''\<rparr>],
        trace := trace cappedState @ ranFlowEvents
                 @ [TaskStop 0, Log (Unregistered ''s1''), Log (PausedMaxExecutions ''s1''),
                    DbSave ''s1'', Log (ExecutedOk ''s1'')]\<rparr>"

definition cappedFailedAfter :: state where
  "cappedFailedAfter =
     cappedState
       \<lparr>jobs := Map.empty, cronTasks := stoppedTasks,
        schedules :=
          [cappedSchedule\<lparr>lastExecutedAt := Some 1014, executionCount := 1,
                          lastExecutionStatus := ''failed'', consecutiveFailures := Some 1,
                          nextExecutionAt := Some 60014, enabled := False,
                          pausedReason := Some ''Max executions reached''\<rparr>],
        trace := trace cappedState @ ranFlowEvents
                 @ [TaskStop 0, Log (Unregistered ''s1''), Log (PausedMaxExecutions ''s1''),
                    DbSave ''s1'', Log (ScheduleFailed ''s1'' (Error ''write conflict'')),
                    DbSave ''s1'']\<rparr>"

definition pausedAfter :: state where
  "pausedAfter =
     failingState
       \<lparr>jobs := Map.empty, cronTasks := stoppedTasks,
        schedules :=
          [cappedSchedule\<lparr>maxExecutions := None, lastExecutedAt := Some 1010,
                          lastExecutionStatus := ''failed'', consecutiveFailures := Some 3,
                          enabled := False,
                          pausedReason :=
                            Some ''Paused after 3 consecutive failures: node failed''\<rparr>],
        trace := trace failingState @ ranFlowEvents
                 @ [Log (ScheduleFailed ''s1'' (Error ''node failed'')), TaskStop 0,
                    Log (Unregistered ''s1''), Log (PausedFailures ''s1''), DbSave ''s1'']\<rparr>"

definition failedOnceAfter :: state where
  "failedOnceAfter =
     registeredState
       \<lparr>schedules :=
          [exampleSchedule\<lparr>nextExecutionAt := Some 60010, lastExecutedAt := Some 1010,
                           lastExecutionStatus := ''failed'', consecutiveFailures := Some 1\<rparr>],
        trace := trace registeredState @ ranFlowEvents
                 @ [Log (ScheduleFailed ''s1'' (Error ''node failed'')), DbSave ''s1'']\<rparr>"

definition flowGoneAfter :: state where
  "flowGoneAfter =
     flowGoneState
       \<lparr>schedules :=
          [exampleSchedule\<lparr>nextExecutionAt := Some 60006, lastExecutedAt := Some 1006,
                           lastExecutionStatus := ''failed'', consecutiveFailures := Some 1\<rparr>],
        trace := trace flowGoneState
                 @ [DbFindById ''s1'', DbSave ''s1'',
                    Log (ScheduleFailed ''s1'' (Error ''Flow not found'')), DbSave ''s1'']\<rparr>"

definition stuckState :: state where
  "stuckState =
     registeredState
       \<lparr>schedules := [exampleSchedule\<lparr>nextExecutionAt := Some 60000,
                                      isCurrentlyRunning := True\<rparr>],
        trace := trace registeredState @ ranFlowEvents
                 @ [Log (ScheduleFailed ''s1'' (Error ''node failed'')), DbSave ''s1'']\<rparr>"

text \<open>
  Whether the cap is reached by the execution that is being recorded:
  the test of \<open>maxReached\<close> on the incremented count.
\<close>

definition capReached :: "schedule \<Rightarrow> bool" where
  "capReached s =
     (case maxExecutions s of None \<Rightarrow> False | Some m \<Rightarrow> m \<noteq> 0 \<and> m \<le> executionCount s + 1)"







text \<open>The store rejects the save of the running mark (the effect numbered 4).\<close>

definition firstSaveFailsEnv :: env where
  "firstSaveFailsEnv =
     quietEnv\<lparr>saveFails := (\<lambda>n. if n = 4 then Some (Error ''write conflict'') else None)\<rparr>"

definition flowGoneUnmarkedAfter :: state where
  "flowGoneUnmarkedAfter =
     flowGoneState
       \<lparr>schedules :=
          [exampleSchedule\<lparr>nextExecutionAt := Some 60006, lastExecutedAt := Some 1006,
                           lastExecutionStatus := ''failed'', consecutiveFailures := Some 1\<rparr>],
        trace := trace flowGoneState
                 @ [DbFindById ''s1'', DbSave ''s1'',
                    Log (ScheduleFailed ''s1'' (Error ''write conflict'')), DbSave ''s1'']\<rparr>"

text \<open>The schedule that has failed twice before, once its flow has been deleted.\<close>

definition flowGoneFailingState :: state where
  "flowGoneFailingState = failingState\<lparr>flows := []\<rparr>"

definition flowGonePausedAfter :: state where
  "flowGonePausedAfter =
     flowGoneFailingState
       \<lparr>jobs := Map.empty, cronTasks := stoppedTasks,
        schedules :=
          [cappedSchedule\<lparr>maxExecutions := None, lastExecutedAt := Some 1006,
                          lastExecutionStatus := ''failed'', consecutiveFailures := Some 3,
                          enabled := False,
                          pausedReason :=
                            Some ''Paused after 3 consecutive failures: Flow not found''\<rparr>],
        trace := trace flowGoneFailingState
                 @ [DbFindById ''s1'', DbSave ''s1'',
                    Log (ScheduleFailed ''s1'' (Error ''Flow not found'')), TaskStop 0,
                    Log (Unregistered ''s1''), Log (PausedFailures ''s1''), DbSave ''s1'']\<rparr>"

section \<open>Facts about the store\<close>

lemmas example_defs = exampleSchedule_def exampleFlow_def quietEnv_def exampleState_def
  registeredState_def flowGoneState_def cappedSchedule_def cappedState_def zeroCapState_def
  failingState_def nodeFailsEnv_def storeLostEnv_def saveOnceFailsEnv_def firstSaveFailsEnv_def

lemmas after_defs = ranFlowEvents_def stoppedTasks_def zeroCapAfter_def cappedAfter_def
  cappedFailedAfter_def pausedAfter_def failedOnceAfter_def flowGoneAfter_def stuckState_def
  flowGoneUnmarkedAfter_def flowGoneFailingState_def flowGonePausedAfter_def


lemmas cron_defs = toCronExpression_def splitTime_def jsStr_def jsNum_def digitChar_def

lemma findById_raw_sched_id: "findById_raw i docs = Some s \<Longrightarrow> sched_id s = i"
  by (induction docs) (auto simp: findById_raw_def split: if_splits)

lemma findById_raw_map:
  "findById_raw i docs \<noteq> None \<Longrightarrow> sched_id s = i \<Longrightarrow>
   findById_raw i (map (\<lambda>d. if sched_id d = i then s else d) docs) = Some s"
  by (induction docs) (auto simp: findById_raw_def)

lemma findById_raw_map_other:
  "j \<noteq> sched_id s \<Longrightarrow>
   findById_raw j (map (\<lambda>d. if sched_id d = sched_id s then s else d) docs) = findById_raw j docs"
  by (induction docs) (auto simp: findById_raw_def)

lemma findById_raw_append:
  "findById_raw i (docs @ [s]) =
     (case findById_raw i docs of Some d \<Rightarrow> Some d
      | None \<Rightarrow> if sched_id s = i then Some s else None)"
  by (induction docs) (auto simp: findById_raw_def)

text \<open>A saved document is what the next read of its id returns; other ids are untouched.\<close>

lemma findById_save_raw:
  "findById_raw i (save_raw s docs) = (if i = sched_id s then Some s else findById_raw i docs)"
proof (cases "findById_raw (sched_id s) docs")
  case None
  then show ?thesis by (auto simp: save_raw_def findById_raw_append split: option.splits)
next
  case (Some d)
  then show ?thesis
    using findById_raw_map [of "sched_id s" docs s] findById_raw_map_other [of i s docs]
    by (auto simp: save_raw_def)
qed

section \<open>The cron translation\<close>

text \<open>
  C7, as the code behaves: for a schedule with scheduleType \<open>monthly\<close>, time \<open>00:05\<close> and
  dayOfMonth 1 the translation returns the string \<open>05 00 1 * *\<close>. The two parts of the time
  are interpolated as the strings \<open>split\<close> produced, so their leading zeros stay.
\<close>

theorem monthly_keeps_leading_zeros:
  assumes "scheduleType s = Some ''monthly''" and "time s = Some ''00:05''"
    and "dayOfMonth s = Some 1"
  shows "toCronExpression s = Inr (Some ''05 00 1 * *'')"
  using assms by (simp add: cron_defs showNat.simps)

theorem monthly_keeps_leading_zeros_witness:
  "scheduleType exampleSchedule = Some ''monthly'' \<and> time exampleSchedule = Some ''00:05'' \<and>
   dayOfMonth exampleSchedule = Some 1 \<and>
   toCronExpression exampleSchedule = Inr (Some ''05 00 1 * *'')"
  using monthly_keeps_leading_zeros [of exampleSchedule] by (simp add: exampleSchedule_def)

text \<open>C7 as written (the result is \<open>5 0 1 * *\<close>) fails on that schedule.\<close>

theorem monthly_is_not_5_0_1: "toCronExpression exampleSchedule \<noteq> Inr (Some ''5 0 1 * *'')"
  by (simp add: exampleSchedule_def cron_defs showNat.simps)

text \<open>
  C8: a schedule whose scheduleType is none of cron, interval, daily, weekly, monthly, and
  an interval schedule whose intervalUnit is none of minutes, hours, days, make the
  translation throw an error that names the unknown value; \<open>registerSchedule\<close> then throws
  the same error and leaves no trigger for the schedule.
\<close>

theorem unknown_type_or_unit_fails:
  assumes "scheduleType s \<notin> {Some ''cron'', Some ''interval'', Some ''daily'', Some ''weekly'',
                              Some ''monthly''}
           \<or> (scheduleType s = Some ''interval''
               \<and> intervalUnit s \<notin> {Some ''minutes'', Some ''hours'', Some ''days''})"
  shows "\<exists>msg. toCronExpression s = Inl (Error msg)
           \<and> msg = (if scheduleType s = Some ''interval''
                    then ''Unknown interval unit: '' @ jsStr (intervalUnit s)
                    else ''Unknown schedule type: '' @ jsStr (scheduleType s))
           \<and> fst (registerSchedule env s st) = Inl (Error msg)
           \<and> jobs (snd (registerSchedule env s st)) (sched_id s) = None
           \<and> length (cronTasks (snd (registerSchedule env s st))) = length (cronTasks st)"
proof -
  let ?msg = "if scheduleType s = Some ''interval''
              then ''Unknown interval unit: '' @ jsStr (intervalUnit s)
              else ''Unknown schedule type: '' @ jsStr (scheduleType s)"
  have t: "toCronExpression s = Inl (Error ?msg)"
    using assms by (auto simp: toCronExpression_def)
  have b: "registerBody env (sched_id s) s st0 = (Inl (Error ?msg), st0)" for st0
    by (simp add: registerBody_def t)
  have u: "jobs (unregisterSchedule (sched_id s) st) (sched_id s) = None"
    "length (cronTasks (unregisterSchedule (sched_id s) st)) = length (cronTasks st)"
    by (auto simp: unregisterSchedule_def effect_def stopTask_def split: option.splits)
  show ?thesis
    using t u by (auto simp: registerSchedule_def Let_def b effect_def)
qed

theorem unknown_type_or_unit_fails_witness:
  "toCronExpression (exampleSchedule\<lparr>scheduleType := Some ''yearly''\<rparr>)
     = Inl (Error ''Unknown schedule type: yearly'')
   \<and> fst (registerSchedule quietEnv (exampleSchedule\<lparr>scheduleType := Some ''yearly''\<rparr>)
            exampleState)
     = Inl (Error ''Unknown schedule type: yearly'')
   \<and> toCronExpression
        (exampleSchedule\<lparr>scheduleType := Some ''interval'', intervalUnit := Some ''weeks''\<rparr>)
     = Inl (Error ''Unknown interval unit: weeks'')
   \<and> fst (registerSchedule quietEnv
            (exampleSchedule\<lparr>scheduleType := Some ''interval'', intervalUnit := Some ''weeks''\<rparr>)
            exampleState)
     = Inl (Error ''Unknown interval unit: weeks'')"
  using unknown_type_or_unit_fails
          [of "exampleSchedule\<lparr>scheduleType := Some ''yearly''\<rparr>" quietEnv exampleState]
        unknown_type_or_unit_fails
          [of "exampleSchedule\<lparr>scheduleType := Some ''interval'',
                               intervalUnit := Some ''weeks''\<rparr>"
              quietEnv exampleState]
  by (simp add: exampleSchedule_def jsStr_def)

section \<open>Registration\<close>

lemmas run_defs = registerSchedule_def registerBody_def createTrigger_def
  registerUntilAwait_def registerAfterAwait_def unregisterSchedule_def stopTask_def
  saveDoc_def save_raw_def findById_raw_def populate_def effect_def tick_def timezoneOrUTC_def
  Let_def

lemma registeredState_is_registered:
  "registerSchedule quietEnv exampleSchedule exampleState = (Inr (), registeredState)"
  by (simp add: registeredState_def example_defs run_defs cron_defs showNat.simps)

text \<open>
  C10: for a schedule id that the store does not hold, \<open>reloadSchedule\<close> throws instead of
  returning: the error is \<open>Schedule not found\<close> whenever the query itself answers (and
  the query's own error otherwise). The only effect is the query: \<open>jobs\<close> and the tasks
  are as before, so a trigger still held for that id stays registered and started.
\<close>

theorem reload_of_missing_schedule_throws:
  assumes "findById_raw scheduleId (schedules st) = None"
  shows "reloadSchedule env scheduleId st =
           (Inl (case findFails env (tick st) of
                   Some e \<Rightarrow> e | None \<Rightarrow> Error ''Schedule not found''),
            st\<lparr>trace := trace st @ [DbFindById scheduleId]\<rparr>)
         \<and> jobs (snd (reloadSchedule env scheduleId st)) = jobs st
         \<and> cronTasks (snd (reloadSchedule env scheduleId st)) = cronTasks st"
  using assms by (simp add: reloadSchedule_def effect_def Let_def split: option.splits)

theorem reload_of_missing_schedule_throws_witness:
  "findById_raw ''s1'' (schedules orphanedState) = None
   \<and> fst (reloadSchedule quietEnv ''s1'' orphanedState) = Inl (Error ''Schedule not found'')
   \<and> jobs (snd (reloadSchedule quietEnv ''s1'' orphanedState)) ''s1'' = Some 0
   \<and> map running (cronTasks (snd (reloadSchedule quietEnv ''s1'' orphanedState))) = [True]"
proof -
  have h: "findById_raw ''s1'' (schedules orphanedState) = None"
    by (simp add: orphanedState_def findById_raw_def)
  show ?thesis
    using h reload_of_missing_schedule_throws [OF h, of quietEnv]
    by (simp add: orphanedState_def registeredState_def quietEnv_def)
qed

section \<open>initialize\<close>

lemma initialize_sets_flag:
  assumes "initialize env st = (Inr u, st1)"
  shows "initialized st1"
  using assms
  by (auto simp: initialize_def effect_def Let_def
           split: if_splits option.splits prod.splits sum.splits)

lemma initializedState_is_initialized:
  "initialize quietEnv exampleState = (Inr (), initializedState)"
  by (simp add: initializedState_def registeredState_def initialize_def activeSchedules_def
        example_defs run_defs cron_defs showNat.simps)

text \<open>
  C9: once a call of \<open>initialize\<close> has completed, another call (against any behaviour of
  the outside) returns at the \<open>initialized\<close> check. Its only effect is the console line:
  no store query, no registration, and \<open>jobs\<close>, the tasks and the store are unchanged.
\<close>

theorem initialize_twice_is_noop:
  assumes "initialize env st = (Inr u, st1)"
  shows "initialize env' st1 = (Inr (), st1\<lparr>trace := trace st1 @ [Log AlreadyInitialized]\<rparr>)
         \<and> jobs (snd (initialize env' st1)) = jobs st1
         \<and> cronTasks (snd (initialize env' st1)) = cronTasks st1
         \<and> schedules (snd (initialize env' st1)) = schedules st1
         \<and> newEvents st1 (snd (initialize env' st1)) = [Log AlreadyInitialized]"
  using initialize_sets_flag [OF assms]
  by (simp add: initialize_def effect_def newEvents_def)

theorem initialize_twice_is_noop_witness:
  "initialize quietEnv exampleState = (Inr (), initializedState)
   \<and> initialize quietEnv initializedState
       = (Inr (), initializedState\<lparr>trace := trace initializedState @ [Log AlreadyInitialized]\<rparr>)
   \<and> newEvents initializedState (snd (initialize quietEnv initializedState))
       = [Log AlreadyInitialized]"
  using initialize_twice_is_noop [OF initializedState_is_initialized, of quietEnv]
        initializedState_is_initialized
  by (simp add: newEvents_def)

section \<open>The firing handler\<close>

text \<open>
  C3: when the schedule read at fire time has \<open>isCurrentlyRunning\<close> set, the handler
  returns normally and its only effects are the read and one console line. The flow
  executor is not called (so no Execution record is created), nothing is saved, and the
  schedule document, with its executionCount, lastExecutedAt and consecutiveFailures, is
  the one that was read; \<open>jobs\<close> and the tasks are unchanged too.
\<close>

theorem running_schedule_is_skipped:
  assumes "findById_raw scheduleId (schedules st) = Some s" and "isCurrentlyRunning s"
  shows "\<exists>l. executeScheduledFlow env scheduleId st
               = (Inr (), st\<lparr>trace := trace st @ [DbFindById scheduleId, Log l]\<rparr>)
             \<and> jobs (snd (executeScheduledFlow env scheduleId st)) = jobs st
             \<and> cronTasks (snd (executeScheduledFlow env scheduleId st)) = cronTasks st
             \<and> schedules (snd (executeScheduledFlow env scheduleId st)) = schedules st
             \<and> findById_raw scheduleId (schedules (snd (executeScheduledFlow env scheduleId st)))
                 = Some s
             \<and> newEvents st (snd (executeScheduledFlow env scheduleId st))
                 = [DbFindById scheduleId, Log l]"
  using assms
  by (auto simp: executeScheduledFlow_def tryBlock_def effect_def newEvents_def Let_def
           split: option.splits)

theorem running_schedule_is_skipped_witness:
  "findById_raw ''s1'' (schedules runningState)
     = Some (exampleSchedule\<lparr>isCurrentlyRunning := True\<rparr>)
   \<and> isCurrentlyRunning (exampleSchedule\<lparr>isCurrentlyRunning := True\<rparr>)
   \<and> executeScheduledFlow quietEnv ''s1'' runningState
       = (Inr (), runningState\<lparr>trace := trace runningState
                                  @ [DbFindById ''s1'', Log (SkippingRunning ''s1'')]\<rparr>)"
proof -
  have h: "findById_raw ''s1'' (schedules runningState)
             = Some (exampleSchedule\<lparr>isCurrentlyRunning := True\<rparr>)"
    by (simp add: runningState_def findById_raw_def exampleSchedule_def)
  have e: "executeScheduledFlow quietEnv ''s1'' runningState
       = (Inr (), runningState\<lparr>trace := trace runningState
                                  @ [DbFindById ''s1'', Log (SkippingRunning ''s1'')]\<rparr>)"
    by (simp add: executeScheduledFlow_def tryBlock_def runningState_def registeredState_def
          example_defs run_defs)
  from running_schedule_is_skipped [OF h, of quietEnv] e h show ?thesis
    by simp
qed

section \<open>One trigger per schedule id\<close>

text \<open>
  \<open>jobs_inv\<close> holds in every state that calls which do not overlap lead to: each
  method changes \<open>jobs\<close> and the tasks only through \<open>unregisterSchedule\<close> and the end
  of \<open>registerSchedule\<close>.
\<close>

lemma jobs_inv_alt:
  "jobs_inv st =
     (\<forall>i<length (cronTasks st).
        running (cronTasks st ! i) \<longrightarrow> jobs st (task_sid (cronTasks st ! i)) = Some i)"
  by (auto simp: jobs_inv_def list_all_iff)

lemma jobs_inv_cong: "jobs st' = jobs st \<Longrightarrow> cronTasks st' = cronTasks st \<Longrightarrow> jobs_inv st' = jobs_inv st"
  by (simp add: jobs_inv_alt)

lemma jobs_inv_effect [simp]: "jobs_inv (effect e st) = jobs_inv st"
  by (simp add: jobs_inv_alt effect_def)

lemma saveDoc_frame [simp]:
  "jobs (snd (saveDoc env s st)) = jobs st" "cronTasks (snd (saveDoc env s st)) = cronTasks st"
  by (auto simp: saveDoc_def effect_def split: option.splits)

lemma jobs_inv_saveDoc [simp]: "jobs_inv (snd (saveDoc env s st)) = jobs_inv st"
  by (rule jobs_inv_cong) simp_all

lemma unregister_clears [simp]: "jobs (unregisterSchedule k st) k = None"
  by (auto simp: unregisterSchedule_def effect_def split: option.splits)

lemma jobs_inv_unregister [simp]:
  assumes "jobs_inv st"
  shows "jobs_inv (unregisterSchedule k st)"
proof (cases "jobs st k")
  case None
  then show ?thesis using assms by (simp add: unregisterSchedule_def)
next
  case (Some t)
  show ?thesis
    unfolding jobs_inv_alt
  proof (intro allI impI)
    fix i
    assume i: "i < length (cronTasks (unregisterSchedule k st))"
      and r: "running (cronTasks (unregisterSchedule k st) ! i)"
    have len: "i < length (cronTasks st)"
      using i Some by (simp add: unregisterSchedule_def effect_def stopTask_def split: if_splits)
    have it: "i \<noteq> t"
      using r Some len by (auto simp: unregisterSchedule_def effect_def stopTask_def)
    then have same: "cronTasks (unregisterSchedule k st) ! i = cronTasks st ! i"
      using Some by (simp add: unregisterSchedule_def effect_def stopTask_def)
    with r have "running (cronTasks st ! i)" by simp
    with assms len have j: "jobs st (task_sid (cronTasks st ! i)) = Some i"
      by (simp add: jobs_inv_alt)
    with Some it have "task_sid (cronTasks st ! i) \<noteq> k" by auto
    with j same Some show "jobs (unregisterSchedule k st)
            (task_sid (cronTasks (unregisterSchedule k st) ! i)) = Some i"
      by (simp add: unregisterSchedule_def effect_def)
  qed
qed

lemma registerBody_cases:
  "(\<exists>e st1. registerBody env k s st = (Inl e, st1) \<and> jobs st1 = jobs st \<and> cronTasks st1 = cronTasks st)
   \<or> (\<exists>st1 task. registerBody env k s st = (Inr (), st1)
        \<and> jobs st1 = (jobs st)(k \<mapsto> length (cronTasks st))
        \<and> cronTasks st1 = cronTasks st @ [task] \<and> running task \<and> task_sid task = k)"
  by (auto simp: registerBody_def createTrigger_def effect_def Let_def saveDoc_def
           split: sum.splits option.splits prod.splits if_splits)

lemma jobs_inv_snoc:
  assumes inv: "jobs_inv st" and none: "jobs st k = None"
    and j: "jobs st1 = (jobs st)(k \<mapsto> length (cronTasks st))"
    and c: "cronTasks st1 = cronTasks st @ [task]" and sid: "task_sid task = k"
  shows "jobs_inv st1"
  unfolding jobs_inv_alt
proof (intro allI impI)
  fix i
  assume i: "i < length (cronTasks st1)" and r: "running (cronTasks st1 ! i)"
  show "jobs st1 (task_sid (cronTasks st1 ! i)) = Some i"
  proof (cases "i < length (cronTasks st)")
    case True
    then have same: "cronTasks st1 ! i = cronTasks st ! i" by (simp add: c nth_append)
    with r inv True have "jobs st (task_sid (cronTasks st ! i)) = Some i"
      by (simp add: jobs_inv_alt)
    moreover from this none have "task_sid (cronTasks st ! i) \<noteq> k" by auto
    ultimately show ?thesis by (simp add: same j)
  next
    case False
    with i have "i = length (cronTasks st)" by (simp add: c)
    then show ?thesis by (simp add: c j sid)
  qed
qed

lemma jobs_inv_registerBody:
  assumes "jobs_inv st" and "jobs st k = None"
  shows "jobs_inv (snd (registerBody env k s st))"
  using registerBody_cases [of env k s st]
proof (elim disjE exE conjE)
  fix e st1
  assume "registerBody env k s st = (Inl e, st1)" "jobs st1 = jobs st" "cronTasks st1 = cronTasks st"
  then show ?thesis using assms(1) jobs_inv_cong [of st1 st] by simp
next
  fix st1 task
  assume "registerBody env k s st = (Inr (), st1)"
    "jobs st1 = (jobs st)(k \<mapsto> length (cronTasks st))"
    "cronTasks st1 = cronTasks st @ [task]" "running task" "task_sid task = k"
  then show ?thesis using jobs_inv_snoc [OF assms, of st1 task] by simp
qed

lemma registerSchedule_start:
  "registerSchedule env s st =
     (case registerBody env (sched_id s) s
             (if jobs st (sched_id s) \<noteq> None then unregisterSchedule (sched_id s) st else st) of
        (Inl e, st1) \<Rightarrow> (Inl e, effect (Log (RegisterFailed (sched_id s) e)) st1)
      | (Inr u, st1) \<Rightarrow> (Inr u, st1))"
  by (simp add: registerSchedule_def Let_def)

lemma jobs_inv_registerSchedule [simp]:
  assumes "jobs_inv st"
  shows "jobs_inv (snd (registerSchedule env s st))"
proof -
  let ?st0 = "if jobs st (sched_id s) \<noteq> None then unregisterSchedule (sched_id s) st else st"
  have a: "jobs_inv ?st0" using assms by simp
  have b: "jobs ?st0 (sched_id s) = None" by simp
  from jobs_inv_registerBody [OF a b, of env s] show ?thesis
    by (auto simp: registerSchedule_start split: prod.splits sum.splits)
qed

lemma jobs_inv_recordFailure [simp]:
  "jobs_inv st \<Longrightarrow> jobs_inv (snd (recordFailure env k err s st))"
  by (simp add: recordFailure_def Let_def split: sum.splits)

lemma jobs_inv_recordSuccess [simp]:
  "jobs_inv st \<Longrightarrow> jobs_inv (snd (snd (recordSuccess env k s st)))"
  by (simp add: recordSuccess_def Let_def split_beta split: sum.splits)

lemma jobs_inv_runFlow [simp]:
  "jobs_inv st \<Longrightarrow> jobs_inv (snd (snd (runFlow env k s fl st)))"
  by (simp add: runFlow_def Let_def split_beta split: sum.splits option.splits)

lemma jobs_inv_tryBlock [simp]:
  "jobs_inv st \<Longrightarrow> jobs_inv (snd (snd (tryBlock env k st)))"
  by (simp add: tryBlock_def Let_def split: option.splits)

lemma jobs_inv_executeScheduledFlow [simp]:
  "jobs_inv st \<Longrightarrow> jobs_inv (snd (executeScheduledFlow env k st))"
  by (simp add: executeScheduledFlow_def Let_def split_beta split: sum.splits option.splits)

lemma jobs_inv_reloadSchedule [simp]:
  "jobs_inv st \<Longrightarrow> jobs_inv (snd (reloadSchedule env k st))"
  by (simp add: reloadSchedule_def Let_def split: option.splits)

lemma jobs_inv_registerAll [simp]:
  "jobs_inv st \<Longrightarrow> jobs_inv (snd (registerAll env ds st))"
proof (induction ds arbitrary: st)
  case Nil
  then show ?case by simp
next
  case (Cons d ds)
  obtain s fl where d: "d = (s, fl)" by (cases d)
  from Cons.prems have r: "jobs_inv (snd (registerSchedule env s st))" by simp
  show ?case
    using Cons.IH [OF Cons.prems] Cons.IH [OF r] r
    by (simp add: d split_beta split: sum.splits)
qed

lemma jobs_inv_initialized [simp]: "jobs_inv (st\<lparr>initialized := b\<rparr>) = jobs_inv st"
  by (simp add: jobs_inv_alt)

lemma jobs_inv_initialize [simp]:
  "jobs_inv st \<Longrightarrow> jobs_inv (snd (initialize env st))"
  by (simp add: initialize_def Let_def split_beta split: option.splits sum.splits)

lemma sequential_jobs_inv: "sequential st \<Longrightarrow> jobs_inv st"
proof (induction rule: sequential.induct)
  case (fresh st)
  then show ?case by (simp add: jobs_inv_alt)
next
  case (after_store_edit st ss fs)
  then show ?case by (simp add: jobs_inv_alt)
qed simp_all


lemma live_is_registered:
  "jobs_inv st \<Longrightarrow> i \<in> set (liveTriggers k st) \<Longrightarrow> jobs st k = Some i"
  by (auto simp: jobs_inv_alt liveTriggers_def)



lemma registerSchedule_ok:
  assumes "registerSchedule env s st = (Inr u, st1)"
  shows "jobs st1 (sched_id s) = Some (length (cronTasks st1) - 1)
         \<and> cronTasks st1 \<noteq> []
         \<and> running (last (cronTasks st1)) \<and> task_sid (last (cronTasks st1)) = sched_id s
         \<and> butlast (cronTasks st1) = cronTasks (if jobs st (sched_id s) \<noteq> None then unregisterSchedule (sched_id s) st else st)"
  using assms registerBody_cases [of env "sched_id s" s "if jobs st (sched_id s) \<noteq> None then unregisterSchedule (sched_id s) st else st"]
  by (auto simp: registerSchedule_start split: prod.splits sum.splits)



lemma stopTask_length [simp]: "length (stopTask t ts) = length ts"
  by (simp add: stopTask_def)


lemma no_live_without_job:
  assumes "jobs_inv st" and "jobs st k = None"
  shows "liveTriggers k st = []"
proof -
  have "i \<notin> set (liveTriggers k st)" for i
    using live_is_registered [OF assms(1), of i k] assms(2) by auto
  then show ?thesis by (cases "liveTriggers k st") auto
qed





text \<open>The two halves make up the call when nothing runs in between.\<close>

lemma await_split:
  assumes "registerUntilAwait env s st = Some (c, st1)"
  shows "registerSchedule env s st = registerAfterAwait env s c st1"
proof -
  define st0 where
    "st0 = (if jobs st (sched_id s) \<noteq> None then unregisterSchedule (sched_id s) st else st)"
  have u: "registerUntilAwait env s st =
      (case toCronExpression s of
         Inl e \<Rightarrow> None
       | Inr cronExpr \<Rightarrow>
           (if nextExecutionAt s = None then
              (case calculateNextExecution env (tick st0) s of
                 Inl e \<Rightarrow> None
               | Inr nxt \<Rightarrow>
                   (case saveDoc env (s\<lparr>nextExecutionAt := nxt\<rparr>) st0 of
                      (Inl e, st1) \<Rightarrow> None
                    | (Inr _, st1) \<Rightarrow> Some (cronExpr, st1)))
            else None))"
    by (simp only: registerUntilAwait_def Let_def st0_def)
  from assms obtain nxt where
    c: "toCronExpression s = Inr c" and n: "nextExecutionAt s = None"
    and calc: "calculateNextExecution env (tick st0) s = Inr nxt"
    and sd: "saveDoc env (s\<lparr>nextExecutionAt := nxt\<rparr>) st0 = (Inr (), st1)"
    unfolding u by (simp split: sum.splits if_splits prod.splits)
  have "registerBody env (sched_id s) s st0 = createTrigger env (sched_id s) s c st1"
    by (simp add: registerBody_def c n calc sd)
  then show ?thesis
    by (simp only: registerSchedule_start registerAfterAwait_def st0_def)
qed

text \<open>While a call waits at its \<open>await\<close>, no started task fires its id.\<close>

lemma suspended_call_holds_none:
  assumes inv: "jobs_inv st" and run: "registerUntilAwait env s st = Some (c, st1)"
  shows "jobs_inv st1 \<and> jobs st1 (sched_id s) = None \<and> liveTriggers (sched_id s) st1 = []"
proof -
  define st0 where
    "st0 = (if jobs st (sched_id s) \<noteq> None then unregisterSchedule (sched_id s) st else st)"
  have inv0: "jobs_inv st0" and none0: "jobs st0 (sched_id s) = None"
    using inv by (simp_all add: st0_def)
  have "\<exists>d. st1 = snd (saveDoc env d st0)"
    using run unfolding registerUntilAwait_def Let_def st0_def [symmetric]
    by (auto split: sum.splits if_splits prod.splits) (metis snd_conv)
  then obtain d where st1: "st1 = snd (saveDoc env d st0)" ..
  have inv1: "jobs_inv st1" using inv0 by (simp add: st1)
  have none1: "jobs st1 (sched_id s) = None" using none0 by (simp add: st1)
  from inv1 none1 no_live_without_job [OF inv1 none1] show ?thesis by simp
qed


lemma fresh_exampleState: "sequential exampleState"
  by (rule sequential.fresh) (simp_all add: exampleState_def)









section \<open>Outcomes of a firing\<close>

text \<open>
  A firing is followed through the two halves of the handler: \<open>tryBlock\<close>, which ends
  normally or throws with the schedule it has read, and \<open>recordFailure\<close>, the \<open>catch\<close>
  block. The lemmas say what each half has persisted when it returns.
\<close>

lemma saveDoc_ok:
  assumes "saveDoc env s st = (Inr u, st')"
  shows "findById_raw (sched_id s) (schedules st') = Some s"
    and "jobs st' = jobs st" and "cronTasks st' = cronTasks st"
  using assms
  by (auto simp: saveDoc_def effect_def findById_save_raw split: option.splits)

lemma saveDoc_throws:
  "saveDoc env s st = (Inl e, st') \<Longrightarrow> saveFails env (tick st) = Some e"
  by (auto simp: saveDoc_def split: option.splits)

lemma effect_frame [simp]:
  "jobs (effect e st) = jobs st" "cronTasks (effect e st) = cronTasks st"
  "schedules (effect e st) = schedules st" "flows (effect e st) = flows st"
  by (simp_all add: effect_def)

lemma no_live_after_unregister:
  assumes "jobs_inv st"
  shows "liveTriggers k (unregisterSchedule k st) = []"
proof -
  have inv: "jobs_inv (unregisterSchedule k st)" using assms by simp
  have "i \<notin> set (liveTriggers k (unregisterSchedule k st))" for i
    using live_is_registered [OF inv, of i k] by auto
  then show ?thesis by (cases "liveTriggers k (unregisterSchedule k st)") auto
qed

lemma liveTriggers_cong:
  "cronTasks st' = cronTasks st \<Longrightarrow> liveTriggers k st' = liveTriggers k st"
  by (simp add: liveTriggers_def)

text \<open>What a failure handler that returns has persisted.\<close>

lemma recordFailure_returns:
  assumes run: "recordFailure env k err s st = (Inr u, st')"
  shows "\<exists>s'. findById_raw (sched_id s) (schedules st') = Some s'
           \<and> lastExecutionStatus s' = ''failed''
           \<and> consecutiveFailures s' = Some (failuresSoFar s + 1)
           \<and> \<not> isCurrentlyRunning s'
           \<and> executionCount s' = executionCount s
           \<and> cadence s' = cadence s
           \<and> (3 \<le> failuresSoFar s + 1 \<longrightarrow>
                 \<not> enabled s'
                 \<and> pausedReason s' = Some (''Paused after '' @ showNat (failuresSoFar s + 1)
                                           @ '' consecutive failures: '' @ message err)
                 \<and> jobs st' = jobs (unregisterSchedule k st)
                 \<and> cronTasks st' = cronTasks (unregisterSchedule k st))
           \<and> (failuresSoFar s + 1 < 3 \<longrightarrow>
                 enabled s' = enabled s \<and> pausedReason s' = pausedReason s
                 \<and> jobs st' = jobs st \<and> cronTasks st' = cronTasks st
                 \<and> (\<exists>s2. cadence s2 = cadence s
                       \<and> calculateNextExecution env (tick st) s2 = Inr (nextExecutionAt s')))"
proof (cases "3 \<le> failuresSoFar s + 1")
  case True
  let ?s' = "s\<lparr>lastExecutedAt := Some (now env (tick st)),
                 lastExecutionStatus := ''failed'',
                 consecutiveFailures := Some (failuresSoFar s + 1),
                 isCurrentlyRunning := False,
                 currentExecutionId := None, enabled := False,
                 pausedReason := Some (''Paused after '' @ showNat (failuresSoFar s + 1)
                                       @ '' consecutive failures: '' @ message err)\<rparr>"
  from run True have sd: "saveDoc env ?s'
        (effect (Log (PausedFailures k)) (unregisterSchedule k st)) = (Inr u, st')"
    by (simp add: recordFailure_def Let_def)
  from saveDoc_ok [OF sd] True show ?thesis
    by (intro exI [of _ ?s']) (simp add: cadence_def)
next
  case False
  let ?s1 = "s\<lparr>lastExecutedAt := Some (now env (tick st)),
                 lastExecutionStatus := ''failed'',
                 consecutiveFailures := Some (failuresSoFar s + 1),
                 isCurrentlyRunning := False,
                 currentExecutionId := None\<rparr>"
  from run False obtain nxt where c: "calculateNextExecution env (tick st) ?s1 = Inr nxt"
    and sd: "saveDoc env (?s1\<lparr>nextExecutionAt := nxt\<rparr>) st = (Inr u, st')"
    by (auto simp: recordFailure_def Let_def split: sum.splits)
  have cad: "cadence ?s1 = cadence s" "cadence (?s1\<lparr>nextExecutionAt := nxt\<rparr>) = cadence s"
    by (simp_all add: cadence_def)
  from c cad(1) have ex: "\<exists>s2. cadence s2 = cadence s
      \<and> calculateNextExecution env (tick st) s2 = Inr nxt"
    by blast
  from saveDoc_ok [OF sd] False ex cad(2) show ?thesis
    by (intro exI [of _ "?s1\<lparr>nextExecutionAt := nxt\<rparr>"]) simp
qed

lemma recordFailure_escapes:
  assumes "recordFailure env k err s st = (Inl e, st')"
  shows "(\<exists>n. saveFails env n = Some e) \<or> (\<exists>n x. calculateNextExecution env n x = Inl e)"
  using assms
  by (auto simp: recordFailure_def Let_def split: sum.splits if_splits dest: saveDoc_throws)


lemma recordSuccess_returns:
  assumes run: "recordSuccess env k s st = (Inr u, sv, st')"
  shows "\<exists>s'. findById_raw (sched_id s) (schedules st') = Some s'
           \<and> lastExecutionStatus s' = ''success''
           \<and> executionCount s' = executionCount s + 1
           \<and> consecutiveFailures s' = Some 0
           \<and> \<not> isCurrentlyRunning s'
           \<and> cadence s' = cadence s
           \<and> (capReached s \<longrightarrow>
                 \<not> enabled s' \<and> pausedReason s' = Some ''Max executions reached''
                 \<and> jobs st' = jobs (unregisterSchedule k st)
                 \<and> cronTasks st' = cronTasks (unregisterSchedule k st))
           \<and> (\<not> capReached s \<longrightarrow>
                 enabled s' = enabled s \<and> pausedReason s' = pausedReason s
                 \<and> jobs st' = jobs st \<and> cronTasks st' = cronTasks st)"
proof -
  let ?s1 = "s\<lparr>lastExecutedAt := Some (now env (tick st)),
                 executionCount := Suc (executionCount s),
                 lastExecutionStatus := ''success'',
                 consecutiveFailures := Some 0\<rparr>"
  from run obtain nxt where c: "calculateNextExecution env (tick st) ?s1 = Inr nxt"
    by (auto simp: recordSuccess_def Let_def split: sum.splits)
  let ?s2 = "?s1\<lparr>nextExecutionAt := nxt, isCurrentlyRunning := False,
                     currentExecutionId := None\<rparr>"
  have m: "maxReached ?s2 = capReached s"
    by (simp add: maxReached_def capReached_def split: option.splits)
  show ?thesis
  proof (cases "capReached s")
    case True
    let ?s3 = "?s2\<lparr>enabled := False, pausedReason := Some ''Max executions reached''\<rparr>"
    from run True obtain st2 where
      sd: "saveDoc env ?s3 (effect (Log (PausedMaxExecutions k)) (unregisterSchedule k st))
             = (Inr (), st2)"
      by (auto simp: recordSuccess_def Let_def c m split: sum.splits prod.splits)
    from run True sd have st': "st' = effect (Log (ExecutedOk k)) st2"
      by (simp add: recordSuccess_def Let_def c m)
    from saveDoc_ok [OF sd] True show ?thesis
      by (intro exI [of _ ?s3]) (simp add: st' cadence_def)
  next
    case False
    from run False obtain st2 where sd: "saveDoc env ?s2 st = (Inr (), st2)"
      by (auto simp: recordSuccess_def Let_def c m split: sum.splits prod.splits)
    from run False sd have st': "st' = effect (Log (ExecutedOk k)) st2"
      by (simp add: recordSuccess_def Let_def c m)
    from saveDoc_ok [OF sd] False show ?thesis
      by (intro exI [of _ ?s2]) (simp add: st' cadence_def)
  qed
qed

lemma recordSuccess_throws:
  assumes run: "recordSuccess env k s st = (Inl err, sv, st')"
  shows "\<exists>s1. sv = Some s1 \<and> sched_id s1 = sched_id s \<and> cadence s1 = cadence s
           \<and> failuresSoFar s1 = 0 \<and> executionCount s1 = executionCount s + 1
           \<and> (enabled s1 = enabled s
               \<or> \<not> enabled s1 \<and> pausedReason s1 = Some ''Max executions reached'')"
  using run
  by (auto simp: recordSuccess_def Let_def split_beta cadence_def failuresSoFar_def
           split: sum.splits if_splits)

lemma runFlow_throws:
  assumes run: "runFlow env k s fl st = (Inl err, sv, st')"
  shows "\<exists>s1. sv = Some s1 \<and> sched_id s1 = sched_id s \<and> cadence s1 = cadence s
           \<and> (executionCount s1 = executionCount s \<and> enabled s1 = enabled s
                \<and> failuresSoFar s1 = failuresSoFar s
              \<or> executionCount s1 = executionCount s + 1 \<and> failuresSoFar s1 = 0
                \<and> (enabled s1 = enabled s
                    \<or> \<not> enabled s1 \<and> pausedReason s1 = Some ''Max executions reached''))"
proof -
  let ?s = "s\<lparr>isCurrentlyRunning := True\<rparr>"
  have "sv = Some ?s \<or> (\<exists>st4. recordSuccess env k ?s st4 = (Inl err, sv, st'))"
    using run
    by (auto simp: runFlow_def Let_def split_beta split: sum.splits option.splits)
  then show ?thesis
  proof
    assume "sv = Some ?s"
    then show ?thesis by (simp add: cadence_def failuresSoFar_def)
  next
    assume "\<exists>st4. recordSuccess env k ?s st4 = (Inl err, sv, st')"
    then obtain st4 where "recordSuccess env k ?s st4 = (Inl err, sv, st')" ..
    from recordSuccess_throws [OF this] show ?thesis
      by (auto simp: cadence_def)
  qed
qed

lemma tryBlock_throws:
  assumes run: "tryBlock env k st = (Inl err, Some s1, st1)"
    and found: "findById_raw k (schedules st) = Some s"
  shows "sched_id s1 = k \<and> cadence s1 = cadence s \<and> enabled s \<and> \<not> isCurrentlyRunning s
           \<and> (executionCount s1 = executionCount s \<and> enabled s1
                \<and> failuresSoFar s1 = failuresSoFar s
              \<or> executionCount s1 = executionCount s + 1 \<and> failuresSoFar s1 = 0
                \<and> (enabled s1
                    \<or> \<not> enabled s1 \<and> pausedReason s1 = Some ''Max executions reached''))"
proof -
  from run found have en: "enabled s" "\<not> isCurrentlyRunning s"
    and rf: "runFlow env k s (populate st s) (effect (DbFindById k) st) = (Inl err, Some s1, st1)"
    by (auto simp: tryBlock_def Let_def split: option.splits if_splits)
  from runFlow_throws [OF rf] en findById_raw_sched_id [OF found] show ?thesis
    by auto
qed


lemma runFlow_completes:
  assumes run: "runFlow env k s fl st = (Inr u, sv, st')"
  shows "\<exists>st4. recordSuccess env k (s\<lparr>isCurrentlyRunning := True\<rparr>) st4 = (Inr u, sv, st')
           \<and> jobs st4 = jobs st \<and> cronTasks st4 = cronTasks st"
  using run saveDoc_frame [of env "s\<lparr>isCurrentlyRunning := True\<rparr>" st]
  by (auto simp: runFlow_def Let_def split_beta split: sum.splits option.splits)

lemma tryBlock_completes:
  assumes run: "tryBlock env k st = (Inr u, sv, st1)"
    and found: "findById_raw k (schedules st) = Some s"
    and en: "enabled s" and idle: "\<not> isCurrentlyRunning s"
  shows "\<exists>st4. recordSuccess env k (s\<lparr>isCurrentlyRunning := True\<rparr>) st4 = (Inr u, sv, st1)
           \<and> jobs st4 = jobs st \<and> cronTasks st4 = cronTasks st"
proof -
  from run found en idle
  have "runFlow env k s (populate st s) (effect (DbFindById k) st) = (Inr u, sv, st1)"
    by (auto simp: tryBlock_def Let_def split: option.splits)
  from runFlow_completes [OF this] show ?thesis by simp
qed

lemma disabled_schedule_is_skipped:
  assumes "findById_raw k (schedules st) = Some s" and "\<not> enabled s"
  shows "\<exists>l. executeScheduledFlow env k st
               = (Inr (), st\<lparr>trace := trace st @ [DbFindById k, Log l]\<rparr>)"
  using assms
  by (auto simp: executeScheduledFlow_def tryBlock_def effect_def Let_def split: option.splits)

lemma jobs_inv_frame:
  "jobs a = jobs b \<Longrightarrow> cronTasks a = cronTasks b \<Longrightarrow> jobs_inv b \<Longrightarrow> jobs_inv a"
  by (simp add: jobs_inv_alt)

lemma unregistered_elsewhere:
  assumes inv: "jobs_inv st" and j: "jobs st4 = jobs st" and c: "cronTasks st4 = cronTasks st"
    and j': "jobs st' = jobs (unregisterSchedule k st4)"
    and c': "cronTasks st' = cronTasks (unregisterSchedule k st4)"
  shows "jobs st' k = None \<and> liveTriggers k st' = []"
proof -
  have "jobs_inv st4" using jobs_inv_frame [OF j c inv] .
  from no_live_after_unregister [OF this, of k] liveTriggers_cong [OF c', of k] j'
  show ?thesis by simp
qed

text \<open>
  C5, as the code behaves: take a firing that succeeds (the schedule read is enabled and
  not running, and the \<open>try\<close> block ends without throwing) for a schedule whose
  maxExecutions is a number other than 0 that the incremented executionCount reaches. Then
  the handler returns, the persisted schedule has the incremented count, enabled=false and
  pausedReason \<open>Max executions reached\<close>, \<open>jobs\<close> holds no task for the id and no
  started task fires it; a later call of the handler for the id only reads and logs.
  \<open>jobs_inv\<close> holds in every state that calls which do not overlap lead to
  (\<open>sequential_jobs_inv\<close>).
\<close>

theorem cap_reached_pauses:
  assumes found: "findById_raw k (schedules st) = Some s"
    and en: "enabled s" and idle: "\<not> isCurrentlyRunning s"
    and ok: "fst (tryBlock env k st) = Inr ()"
    and cap: "maxExecutions s = Some m" "m \<noteq> 0" "m \<le> executionCount s + 1"
    and inv: "jobs_inv st"
  shows "\<exists>st' s'. executeScheduledFlow env k st = (Inr (), st')
           \<and> findById_raw k (schedules st') = Some s'
           \<and> lastExecutionStatus s' = ''success''
           \<and> executionCount s' = executionCount s + 1
           \<and> \<not> enabled s' \<and> pausedReason s' = Some ''Max executions reached''
           \<and> jobs st' k = None \<and> liveTriggers k st' = []
           \<and> (\<forall>env'. \<exists>l. executeScheduledFlow env' k st'
                  = (Inr (), st'\<lparr>trace := trace st' @ [DbFindById k, Log l]\<rparr>))"
proof -
  obtain sv st1 where t: "tryBlock env k st = (Inr (), sv, st1)"
    using ok by (cases "tryBlock env k st") auto
  have run: "executeScheduledFlow env k st = (Inr (), st1)"
    by (simp add: executeScheduledFlow_def t)
  from tryBlock_completes [OF t found en idle] obtain st4 where
    rs: "recordSuccess env k (s\<lparr>isCurrentlyRunning := True\<rparr>) st4 = (Inr (), sv, st1)"
    and j: "jobs st4 = jobs st" and c: "cronTasks st4 = cronTasks st"
    by blast
  have reached: "capReached (s\<lparr>isCurrentlyRunning := True\<rparr>)"
    using cap by (simp add: capReached_def)
  from recordSuccess_returns [OF rs] reached findById_raw_sched_id [OF found]
  obtain s' where s': "findById_raw k (schedules st1) = Some s'"
    "lastExecutionStatus s' = ''success''" "executionCount s' = executionCount s + 1"
    "\<not> enabled s'" "pausedReason s' = Some ''Max executions reached''"
    "jobs st1 = jobs (unregisterSchedule k st4)"
    "cronTasks st1 = cronTasks (unregisterSchedule k st4)"
    by auto
  from unregistered_elsewhere [OF inv j c s'(6) s'(7)]
  have gone: "jobs st1 k = None" "liveTriggers k st1 = []" by simp_all
  have later: "\<forall>env'. \<exists>l. executeScheduledFlow env' k st1
                  = (Inr (), st1\<lparr>trace := trace st1 @ [DbFindById k, Log l]\<rparr>)"
    using disabled_schedule_is_skipped [OF s'(1) s'(4)] by blast
  from run s'(1-5) gone later show ?thesis by blast
qed

text \<open>
  The failure policy on every failed firing (the \<open>try\<close> block throws \<open>err\<close> after the
  schedule was read) whose \<open>catch\<close> block returns, so that the failure is persisted with
  the new count \<open>n\<close> of consecutive failures. If \<open>n\<close> is 3 or more the persisted schedule has
  enabled=false and a pausedReason that is not empty, \<open>jobs\<close> holds no task for the id and
  no started task fires it. If \<open>n\<close> is below 3 the cadence is unchanged and nextExecutionAt
  is what \<open>calculateNextExecution\<close> returns for it. In that case the schedule is still
  enabled whenever the flow run had not completed; the one firing left is the one in which
  the flow run completed (executionCount incremented) and the \<open>try\<close> block threw
  afterwards.
\<close>

lemma failed_firing_policy:
  assumes found: "findById_raw k (schedules st) = Some s"
    and thrown: "tryBlock env k st = (Inl err, Some s1, st1)"
    and returned: "executeScheduledFlow env k st = (Inr u, st')"
    and inv: "jobs_inv st"
  shows "\<exists>s' n. findById_raw k (schedules st') = Some s'
           \<and> lastExecutionStatus s' = ''failed'' \<and> consecutiveFailures s' = Some n
           \<and> \<not> isCurrentlyRunning s'
           \<and> (executionCount s' = executionCount s \<and> n = failuresSoFar s + 1
               \<or> executionCount s' = executionCount s + 1 \<and> n = 1)
           \<and> (3 \<le> n \<longrightarrow>
                 \<not> enabled s'
                 \<and> pausedReason s' = Some (''Paused after '' @ showNat n
                                           @ '' consecutive failures: '' @ message err)
                 \<and> pausedReason s' \<noteq> Some []
                 \<and> jobs st' k = None \<and> liveTriggers k st' = [])
           \<and> (n < 3 \<longrightarrow>
                 (enabled s'
                  \<or> executionCount s' = executionCount s + 1
                    \<and> pausedReason s' = Some ''Max executions reached'')
                 \<and> cadence s' = cadence s
                 \<and> (\<exists>i s2. cadence s2 = cadence s
                       \<and> calculateNextExecution env i s2 = Inr (nextExecutionAt s')))"
proof -
  let ?st2 = "effect (Log (ScheduleFailed k err)) st1"
  have rf: "recordFailure env k err s1 ?st2 = (Inr u, st')"
    using returned by (simp add: executeScheduledFlow_def thrown Let_def)
  have inv2: "jobs_inv ?st2"
    using jobs_inv_tryBlock [OF inv, of env k] by (simp add: thrown)
  from tryBlock_throws [OF thrown found]
  have k: "sched_id s1 = k" and cad: "cadence s1 = cadence s"
    and br: "executionCount s1 = executionCount s \<and> enabled s1
                \<and> failuresSoFar s1 = failuresSoFar s
              \<or> executionCount s1 = executionCount s + 1 \<and> failuresSoFar s1 = 0
                \<and> (enabled s1
                    \<or> \<not> enabled s1 \<and> pausedReason s1 = Some ''Max executions reached'')"
    by simp_all
  from recordFailure_returns [OF rf] k
  obtain s' where s': "findById_raw k (schedules st') = Some s'"
    "lastExecutionStatus s' = ''failed''"
    "consecutiveFailures s' = Some (failuresSoFar s1 + 1)"
    "\<not> isCurrentlyRunning s'" "executionCount s' = executionCount s1"
    "cadence s' = cadence s1"
    and hi: "3 \<le> failuresSoFar s1 + 1 \<Longrightarrow>
                 \<not> enabled s'
                 \<and> pausedReason s' = Some (''Paused after '' @ showNat (failuresSoFar s1 + 1)
                                           @ '' consecutive failures: '' @ message err)
                 \<and> jobs st' = jobs (unregisterSchedule k ?st2)
                 \<and> cronTasks st' = cronTasks (unregisterSchedule k ?st2)"
    and lo: "failuresSoFar s1 + 1 < 3 \<Longrightarrow>
                 enabled s' = enabled s1 \<and> pausedReason s' = pausedReason s1
                 \<and> (\<exists>s2. cadence s2 = cadence s1
                       \<and> calculateNextExecution env (tick ?st2) s2 = Inr (nextExecutionAt s'))"
    by auto
  let ?n = "failuresSoFar s1 + 1"
  have count: "executionCount s' = executionCount s \<and> ?n = failuresSoFar s + 1
               \<or> executionCount s' = executionCount s + 1 \<and> ?n = 1"
    using br s'(5) by auto
  have high: "\<not> enabled s'
                 \<and> pausedReason s' = Some (''Paused after '' @ showNat ?n
                                           @ '' consecutive failures: '' @ message err)
                 \<and> pausedReason s' \<noteq> Some []
                 \<and> jobs st' k = None \<and> liveTriggers k st' = []" if "3 \<le> ?n"
  proof -
    from hi [OF that] have p: "\<not> enabled s'"
      "pausedReason s' = Some (''Paused after '' @ showNat ?n
                                @ '' consecutive failures: '' @ message err)"
      and j: "jobs st' = jobs (unregisterSchedule k ?st2)"
      and c: "cronTasks st' = cronTasks (unregisterSchedule k ?st2)"
      by simp_all
    from unregistered_elsewhere [OF inv2 refl refl j c] p show ?thesis by simp
  qed
  have low: "(enabled s'
                  \<or> executionCount s' = executionCount s + 1
                    \<and> pausedReason s' = Some ''Max executions reached'')
                 \<and> cadence s' = cadence s
                 \<and> (\<exists>i s2. cadence s2 = cadence s
                       \<and> calculateNextExecution env i s2 = Inr (nextExecutionAt s'))"
    if "?n < 3"
    using lo [OF that] br s'(5,6) cad by auto
  from s'(1-4) count high low show ?thesis by blast
qed


lemmas fire_defs = executeScheduledFlow_def tryBlock_def runFlow_def recordSuccess_def
  recordFailure_def failuresSoFar_def maxReached_def mapFlowData_def

lemma jobs_inv_registeredState: "jobs_inv registeredState"
  using jobs_inv_registerSchedule [OF sequential_jobs_inv [OF fresh_exampleState],
          of quietEnv exampleSchedule]
  by (simp add: registeredState_is_registered)

lemma run_zeroCap: "executeScheduledFlow quietEnv ''s1'' zeroCapState = (Inr (), zeroCapAfter)"
  by (simp add: example_defs after_defs fire_defs run_defs)

lemma run_capped: "executeScheduledFlow quietEnv ''s1'' cappedState = (Inr (), cappedAfter)"
  by (simp add: example_defs after_defs fire_defs run_defs)

lemma run_cappedFailed:
  "executeScheduledFlow saveOnceFailsEnv ''s1'' cappedState = (Inr (), cappedFailedAfter)"
  by (simp add: example_defs after_defs fire_defs run_defs showNat.simps digitChar_def)

lemma run_paused: "executeScheduledFlow nodeFailsEnv ''s1'' failingState = (Inr (), pausedAfter)"
  by (simp add: example_defs after_defs fire_defs run_defs showNat.simps digitChar_def)

lemma run_failedOnce:
  "executeScheduledFlow nodeFailsEnv ''s1'' registeredState = (Inr (), failedOnceAfter)"
  by (simp add: example_defs after_defs fire_defs run_defs showNat.simps digitChar_def)

lemma run_flowGone: "executeScheduledFlow quietEnv ''s1'' flowGoneState = (Inr (), flowGoneAfter)"
  by (simp add: example_defs after_defs fire_defs run_defs showNat.simps digitChar_def)

lemma run_stuck:
  "executeScheduledFlow storeLostEnv ''s1'' registeredState
     = (Inl (Error ''store unavailable''), stuckState)"
  by (simp add: example_defs after_defs fire_defs run_defs showNat.simps digitChar_def)


text \<open>
  C5 as written fails when maxExecutions is set to 0: the test
  \<open>schedule.maxExecutions && ...\<close> is false for 0, so the schedule stays enabled and
  registered although executionCount 1 is at least maxExecutions.
\<close>

theorem zero_cap_never_pauses:
  "executeScheduledFlow quietEnv ''s1'' zeroCapState = (Inr (), zeroCapAfter)
   \<and> map maxExecutions (schedules zeroCapState) = [Some 0]
   \<and> map lastExecutionStatus (schedules zeroCapAfter) = [''success'']
   \<and> map executionCount (schedules zeroCapAfter) = [1]
   \<and> map enabled (schedules zeroCapAfter) = [True]
   \<and> map pausedReason (schedules zeroCapAfter) = [None]
   \<and> jobs zeroCapAfter ''s1'' = Some 0
   \<and> liveTriggers ''s1'' zeroCapAfter = [0]"
  using run_zeroCap by (simp add: example_defs after_defs liveTriggers_def)

theorem cap_reached_pauses_witness:
  "findById_raw ''s1'' (schedules cappedState) = Some cappedSchedule
   \<and> enabled cappedSchedule \<and> \<not> isCurrentlyRunning cappedSchedule
   \<and> maxExecutions cappedSchedule = Some 1 \<and> executionCount cappedSchedule = 0
   \<and> fst (tryBlock quietEnv ''s1'' cappedState) = Inr ()
   \<and> jobs_inv cappedState
   \<and> executeScheduledFlow quietEnv ''s1'' cappedState = (Inr (), cappedAfter)
   \<and> map enabled (schedules cappedAfter) = [False]
   \<and> map pausedReason (schedules cappedAfter) = [Some ''Max executions reached'']
   \<and> jobs cappedAfter ''s1'' = None
   \<and> liveTriggers ''s1'' cappedAfter = []"
proof -
  have found: "findById_raw ''s1'' (schedules cappedState) = Some cappedSchedule"
    by (simp add: example_defs findById_raw_def)
  have en: "enabled cappedSchedule" and idle: "\<not> isCurrentlyRunning cappedSchedule"
    and cap: "maxExecutions cappedSchedule = Some 1" "(1::nat) \<noteq> 0"
      "1 \<le> executionCount cappedSchedule + 1"
    and zero: "executionCount cappedSchedule = 0"
    by (simp_all add: example_defs)
  have ok: "fst (tryBlock quietEnv ''s1'' cappedState) = Inr ()"
    by (simp add: example_defs fire_defs run_defs)
  have inv: "jobs_inv cappedState"
    using jobs_inv_registeredState by (simp add: cappedState_def jobs_inv_alt)
  from cap_reached_pauses [OF found en idle ok cap inv] run_capped
  have "jobs cappedAfter ''s1'' = None \<and> liveTriggers ''s1'' cappedAfter = []"
    by auto
  with found en idle cap(1) zero ok inv run_capped show ?thesis
    by (simp add: after_defs)
qed

text \<open>
  C4 fails on the code: the flow run succeeds and reaches maxExecutions, and the store
  rejects the save of that outcome once. The \<open>catch\<close> block then records the failure
  on the document that the \<open>try\<close> block had already updated for the success. The
  firing is persisted as failed with one consecutive failure (two before it), which is
  below 3, and yet the schedule is disabled and its trigger unregistered; the persisted
  record also keeps the incremented executionCount and the pausedReason of the cap.
\<close>

theorem capped_failed_firing_is_disabled:
  "executeScheduledFlow saveOnceFailsEnv ''s1'' cappedState = (Inr (), cappedFailedAfter)
   \<and> map enabled (schedules cappedState) = [True]
   \<and> map consecutiveFailures (schedules cappedState) = [Some 2]
   \<and> map executionCount (schedules cappedState) = [0]
   \<and> map lastExecutionStatus (schedules cappedFailedAfter) = [''failed'']
   \<and> map consecutiveFailures (schedules cappedFailedAfter) = [Some 1]
   \<and> map enabled (schedules cappedFailedAfter) = [False]
   \<and> map pausedReason (schedules cappedFailedAfter) = [Some ''Max executions reached'']
   \<and> map executionCount (schedules cappedFailedAfter) = [1]
   \<and> jobs cappedFailedAfter ''s1'' = None
   \<and> map running (cronTasks cappedFailedAfter) = [False]"
  using run_cappedFailed by (simp add: example_defs after_defs)

text \<open>The failure policy on two firings in which the flow executor throws.\<close>

lemma failed_firing_policy_examples:
  "findById_raw ''s1'' (schedules failingState) = Some (cappedSchedule\<lparr>maxExecutions := None\<rparr>)
   \<and> fst (tryBlock nodeFailsEnv ''s1'' failingState) = Inl (Error ''node failed'')
   \<and> jobs_inv failingState
   \<and> executeScheduledFlow nodeFailsEnv ''s1'' failingState = (Inr (), pausedAfter)
   \<and> map consecutiveFailures (schedules pausedAfter) = [Some 3]
   \<and> map enabled (schedules pausedAfter) = [False]
   \<and> map pausedReason (schedules pausedAfter)
        = [Some ''Paused after 3 consecutive failures: node failed'']
   \<and> jobs pausedAfter ''s1'' = None
   \<and> liveTriggers ''s1'' pausedAfter = []
   \<and> findById_raw ''s1'' (schedules registeredState)
        = Some (exampleSchedule\<lparr>nextExecutionAt := Some 60000\<rparr>)
   \<and> fst (tryBlock nodeFailsEnv ''s1'' registeredState) = Inl (Error ''node failed'')
   \<and> jobs_inv registeredState
   \<and> executeScheduledFlow nodeFailsEnv ''s1'' registeredState = (Inr (), failedOnceAfter)
   \<and> map consecutiveFailures (schedules failedOnceAfter) = [Some 1]
   \<and> map enabled (schedules failedOnceAfter) = [True]
   \<and> map nextExecutionAt (schedules failedOnceAfter) = [Some 60010]
   \<and> map cadence (schedules failedOnceAfter) = map cadence (schedules registeredState)"
proof -
  have found3: "findById_raw ''s1'' (schedules failingState)
                  = Some (cappedSchedule\<lparr>maxExecutions := None\<rparr>)"
    and found1: "findById_raw ''s1'' (schedules registeredState)
                  = Some (exampleSchedule\<lparr>nextExecutionAt := Some 60000\<rparr>)"
    by (simp_all add: example_defs findById_raw_def)
  have t3: "\<exists>s1 st1. tryBlock nodeFailsEnv ''s1'' failingState
                       = (Inl (Error ''node failed''), Some s1, st1)"
    by (simp add: example_defs fire_defs run_defs)
  have t1: "\<exists>s1 st1. tryBlock nodeFailsEnv ''s1'' registeredState
                       = (Inl (Error ''node failed''), Some s1, st1)"
    by (simp add: example_defs fire_defs run_defs)
  have inv1: "jobs_inv registeredState" by (rule jobs_inv_registeredState)
  then have inv3: "jobs_inv failingState" by (simp add: failingState_def jobs_inv_alt)
  from t3 obtain s3 st3 where
    thrown3: "tryBlock nodeFailsEnv ''s1'' failingState = (Inl (Error ''node failed''), Some s3, st3)"
    by blast
  from t1 obtain s1 st1 where
    thrown1: "tryBlock nodeFailsEnv ''s1'' registeredState
                = (Inl (Error ''node failed''), Some s1, st1)"
    by blast
  from failed_firing_policy [OF found3 thrown3 run_paused inv3]
  have high: "jobs pausedAfter ''s1'' = None \<and> liveTriggers ''s1'' pausedAfter = []"
    by (auto simp: after_defs example_defs findById_raw_def)
  from failed_firing_policy [OF found1 thrown1 run_failedOnce inv1]
  have low: "map enabled (schedules failedOnceAfter) = [True]"
    by (auto simp: after_defs example_defs findById_raw_def)
  from high low found3 found1 thrown3 thrown1 inv1 inv3 run_paused run_failedOnce
  show ?thesis
    by (simp add: after_defs example_defs cadence_def)
qed


lemma unregister_trace:
  "\<exists>evs. trace (unregisterSchedule k st) = trace st @ evs \<and> (\<forall>i. ExecuteFlow i \<notin> set evs)"
  by (auto simp: unregisterSchedule_def effect_def split: option.splits)

lemma saveDoc_trace: "trace (snd (saveDoc env s st)) = trace st @ [DbSave (sched_id s)]"
  by (simp add: saveDoc_def effect_def split: option.splits)

lemma recordFailure_trace:
  "\<exists>evs. trace (snd (recordFailure env k err s st)) = trace st @ evs
         \<and> (\<forall>i. ExecuteFlow i \<notin> set evs)"
proof -
  obtain evs where u: "trace (unregisterSchedule k st) = trace st @ evs"
    "\<forall>i. ExecuteFlow i \<notin> set evs"
    using unregister_trace [of k st] by blast
  show ?thesis
    using u by (auto simp: recordFailure_def Let_def saveDoc_trace effect_def split: sum.splits)
qed

text \<open>Without a flow the \<open>try\<close> block throws: the error of the save, or \<open>Flow not found\<close>.\<close>

lemma runFlow_without_flow:
  "runFlow env k s None st
     = (case saveFails env (tick st) of
          Some e \<Rightarrow>
            (Inl e, Some (s\<lparr>isCurrentlyRunning := True\<rparr>), effect (DbSave (sched_id s)) st)
        | None \<Rightarrow>
            (Inl (Error ''Flow not found''), Some (s\<lparr>isCurrentlyRunning := True\<rparr>),
             effect (DbSave (sched_id s))
               (st\<lparr>schedules := save_raw (s\<lparr>isCurrentlyRunning := True\<rparr>) (schedules st)\<rparr>)))"
  by (simp add: runFlow_def saveDoc_def Let_def split: option.splits)

lemma run_flowGoneUnmarked:
  "executeScheduledFlow firstSaveFailsEnv ''s1'' flowGoneState = (Inr (), flowGoneUnmarkedAfter)"
  by (simp add: example_defs after_defs fire_defs run_defs showNat.simps digitChar_def)

lemma run_flowGonePaused:
  "executeScheduledFlow quietEnv ''s1'' flowGoneFailingState = (Inr (), flowGonePausedAfter)"
  by (simp add: example_defs after_defs fire_defs run_defs showNat.simps digitChar_def)

text \<open>
  C2, as the code behaves: when the schedule read is enabled and not running but its flow
  no longer exists, the handler does not return silently. It tries to save
  isCurrentlyRunning=true; if the store accepts that save, the mark is persisted and the
  \<open>try\<close> block throws \<open>Flow not found\<close>; if the store rejects it, the \<open>try\<close> block
  throws the error of the save and has persisted nothing. In both cases the \<open>catch\<close>
  block records a failed firing: when the handler returns, the schedule document has
  changed, lastExecutionStatus is \<open>failed\<close>, consecutiveFailures is one more than before,
  isCurrentlyRunning is cleared, executionCount is unchanged, and the schedule is disabled
  exactly when the new count reaches 3, with a pausedReason that ends in the message of
  the error thrown. The flow executor is not called.
\<close>

theorem missing_flow_counts_as_failure:
  assumes found: "findById_raw k (schedules st) = Some s"
    and en: "enabled s" and idle: "\<not> isCurrentlyRunning s"
    and gone: "populate st s = None"
    and q: "findFails env (tick st) = None"
    and returned: "executeScheduledFlow env k st = (Inr u, st')"
  shows "\<exists>err st2 s'.
           tryBlock env k st = (Inl err, Some (s\<lparr>isCurrentlyRunning := True\<rparr>), st2)
           \<and> (saveFails env (Suc (tick st)) = None \<longrightarrow>
                 err = Error ''Flow not found''
                 \<and> findById_raw k (schedules st2) = Some (s\<lparr>isCurrentlyRunning := True\<rparr>))
           \<and> (\<forall>e. saveFails env (Suc (tick st)) = Some e \<longrightarrow>
                 err = e \<and> schedules st2 = schedules st)
           \<and> findById_raw k (schedules st') = Some s'
           \<and> lastExecutionStatus s' = ''failed''
           \<and> consecutiveFailures s' = Some (failuresSoFar s + 1)
           \<and> \<not> isCurrentlyRunning s'
           \<and> executionCount s' = executionCount s
           \<and> enabled s' = (failuresSoFar s + 1 < 3)
           \<and> (3 \<le> failuresSoFar s + 1 \<longrightarrow>
                 pausedReason s' = Some (''Paused after '' @ showNat (failuresSoFar s + 1)
                                           @ '' consecutive failures: '' @ message err))
           \<and> schedules st' \<noteq> schedules st
           \<and> (\<forall>i. ExecuteFlow i \<notin> set (newEvents st st'))"
proof -
  let ?s = "s\<lparr>isCurrentlyRunning := True\<rparr>"
  let ?st1 = "effect (DbFindById k) st"
  have k: "sched_id s = k" by (rule findById_raw_sched_id [OF found])
  have tick1: "tick ?st1 = Suc (tick st)" by (simp add: tick_def effect_def)
  have rf0: "runFlow env k s None ?st1
      = (case saveFails env (Suc (tick st)) of
           Some e \<Rightarrow> (Inl e, Some ?s, effect (DbSave k) ?st1)
         | None \<Rightarrow>
             (Inl (Error ''Flow not found''), Some ?s,
              effect (DbSave k) (?st1\<lparr>schedules := save_raw ?s (schedules ?st1)\<rparr>)))"
    by (simp only: runFlow_without_flow tick1 k)
  define err where
    "err = (case saveFails env (Suc (tick st)) of
              Some e \<Rightarrow> e | None \<Rightarrow> Error ''Flow not found'')"
  define st2 where
    "st2 = (case saveFails env (Suc (tick st)) of
              Some e \<Rightarrow> effect (DbSave k) ?st1
            | None \<Rightarrow>
                effect (DbSave k) (?st1\<lparr>schedules := save_raw ?s (schedules ?st1)\<rparr>))"
  have rf: "runFlow env k s None ?st1 = (Inl err, Some ?s, st2)"
    by (simp add: rf0 err_def st2_def split: option.splits)
  have marked: "saveFails env (Suc (tick st)) = None \<longrightarrow>
                   err = Error ''Flow not found'' \<and> findById_raw k (schedules st2) = Some ?s"
    by (simp add: err_def st2_def findById_save_raw k)
  have unmarked: "\<forall>e. saveFails env (Suc (tick st)) = Some e \<longrightarrow>
                   err = e \<and> schedules st2 = schedules st"
    by (simp add: err_def st2_def)
  have tr2: "trace st2 = trace st @ [DbFindById k, DbSave k]"
    by (simp add: st2_def effect_def split: option.splits)
  have t: "tryBlock env k st = (Inl err, Some ?s, st2)"
    using found en idle gone q rf by (simp add: tryBlock_def Let_def)
  let ?st3 = "effect (Log (ScheduleFailed k err)) st2"
  have r: "recordFailure env k err ?s ?st3 = (Inr u, st')"
    using returned by (simp add: executeScheduledFlow_def t Let_def)
  from recordFailure_returns [OF r] k en
  obtain s' where s': "findById_raw k (schedules st') = Some s'"
    "lastExecutionStatus s' = ''failed''"
    "consecutiveFailures s' = Some (failuresSoFar s + 1)"
    "\<not> isCurrentlyRunning s'" "executionCount s' = executionCount s"
    "enabled s' = (failuresSoFar s + 1 < 3)"
    "3 \<le> failuresSoFar s + 1 \<longrightarrow>
       pausedReason s' = Some (''Paused after '' @ showNat (failuresSoFar s + 1)
                                 @ '' consecutive failures: '' @ message err)"
    by (auto simp: failuresSoFar_def)
  have "consecutiveFailures s' \<noteq> consecutiveFailures s"
    using s'(3) by (auto simp: failuresSoFar_def split: option.splits)
  with found s'(1) have changed: "schedules st' \<noteq> schedules st" by auto
  obtain evs where evs: "trace st' = trace ?st3 @ evs" "\<forall>i. ExecuteFlow i \<notin> set evs"
    using recordFailure_trace [of env k err ?s ?st3] by (auto simp: r)
  have "newEvents st st' = [DbFindById k, DbSave k, Log (ScheduleFailed k err)] @ evs"
    using evs(1) by (simp add: newEvents_def effect_def tr2)
  with evs(2) have quiet: "\<forall>i. ExecuteFlow i \<notin> set (newEvents st st')" by simp
  show ?thesis
    using t marked unmarked s' changed quiet
    by (intro exI [of _ err] exI [of _ st2] exI [of _ s'] conjI) assumption+
qed


theorem missing_flow_counts_as_failure_witness:
  "findById_raw ''s1'' (schedules flowGoneState)
     = Some (exampleSchedule\<lparr>nextExecutionAt := Some 60000\<rparr>)
   \<and> populate flowGoneState (exampleSchedule\<lparr>nextExecutionAt := Some 60000\<rparr>) = None
   \<and> saveFails quietEnv (Suc (tick flowGoneState)) = None
   \<and> fst (tryBlock quietEnv ''s1'' flowGoneState) = Inl (Error ''Flow not found'')
   \<and> map isCurrentlyRunning (schedules (snd (snd (tryBlock quietEnv ''s1'' flowGoneState))))
       = [True]
   \<and> executeScheduledFlow quietEnv ''s1'' flowGoneState = (Inr (), flowGoneAfter)
   \<and> findById_raw ''s1'' (schedules flowGoneAfter)
       = Some (exampleSchedule\<lparr>nextExecutionAt := Some 60006, lastExecutedAt := Some 1006,
                               lastExecutionStatus := ''failed'',
                               consecutiveFailures := Some 1\<rparr>)
   \<and> newEvents flowGoneState flowGoneAfter
       = [DbFindById ''s1'', DbSave ''s1'',
          Log (ScheduleFailed ''s1'' (Error ''Flow not found'')), DbSave ''s1'']
   \<and> saveFails firstSaveFailsEnv (Suc (tick flowGoneState)) = Some (Error ''write conflict'')
   \<and> fst (tryBlock firstSaveFailsEnv ''s1'' flowGoneState) = Inl (Error ''write conflict'')
   \<and> schedules (snd (snd (tryBlock firstSaveFailsEnv ''s1'' flowGoneState)))
       = schedules flowGoneState
   \<and> executeScheduledFlow firstSaveFailsEnv ''s1'' flowGoneState
       = (Inr (), flowGoneUnmarkedAfter)
   \<and> map lastExecutionStatus (schedules flowGoneUnmarkedAfter) = [''failed'']
   \<and> map consecutiveFailures (schedules flowGoneUnmarkedAfter) = [Some 1]
   \<and> findById_raw ''s1'' (schedules flowGoneFailingState)
       = Some (cappedSchedule\<lparr>maxExecutions := None\<rparr>)
   \<and> failuresSoFar (cappedSchedule\<lparr>maxExecutions := None\<rparr>) = 2
   \<and> executeScheduledFlow quietEnv ''s1'' flowGoneFailingState = (Inr (), flowGonePausedAfter)
   \<and> map enabled (schedules flowGonePausedAfter) = [False]
   \<and> map pausedReason (schedules flowGonePausedAfter)
       = [Some ''Paused after 3 consecutive failures: Flow not found'']"
proof -
  let ?s = "exampleSchedule\<lparr>nextExecutionAt := Some 60000\<rparr>"
  have found: "findById_raw ''s1'' (schedules flowGoneState) = Some ?s"
    by (simp add: example_defs findById_raw_def)
  have en: "enabled ?s" and idle: "\<not> isCurrentlyRunning ?s"
    by (simp_all add: example_defs)
  have gone: "populate flowGoneState ?s = None"
    by (simp add: example_defs populate_def)
  have q: "findFails quietEnv (tick flowGoneState) = None"
    "findFails firstSaveFailsEnv (tick flowGoneState) = None"
    by (simp_all add: example_defs)
  have sv: "saveFails quietEnv (Suc (tick flowGoneState)) = None"
    "saveFails firstSaveFailsEnv (Suc (tick flowGoneState)) = Some (Error ''write conflict'')"
    by (simp_all add: example_defs tick_def)
  from missing_flow_counts_as_failure [OF found en idle gone q(1) run_flowGone] sv(1)
  have a: "fst (tryBlock quietEnv ''s1'' flowGoneState) = Inl (Error ''Flow not found'')"
    by auto
  from missing_flow_counts_as_failure [OF found en idle gone q(2) run_flowGoneUnmarked] sv(2)
  have b: "fst (tryBlock firstSaveFailsEnv ''s1'' flowGoneState) = Inl (Error ''write conflict'')
           \<and> schedules (snd (snd (tryBlock firstSaveFailsEnv ''s1'' flowGoneState)))
               = schedules flowGoneState"
    by auto
  have c: "map isCurrentlyRunning (schedules (snd (snd (tryBlock quietEnv ''s1'' flowGoneState))))
             = [True]"
    by (simp add: example_defs fire_defs run_defs)
  let ?f = "cappedSchedule\<lparr>maxExecutions := None\<rparr>"
  have found3: "findById_raw ''s1'' (schedules flowGoneFailingState) = Some ?f"
    by (simp add: example_defs after_defs findById_raw_def)
  have en3: "enabled ?f" and idle3: "\<not> isCurrentlyRunning ?f"
    and two: "failuresSoFar ?f = 2"
    by (simp_all add: example_defs failuresSoFar_def)
  have gone3: "populate flowGoneFailingState ?f = None"
    by (simp add: example_defs after_defs populate_def)
  have q3: "findFails quietEnv (tick flowGoneFailingState) = None"
    by (simp add: example_defs)
  have sv3: "saveFails quietEnv (Suc (tick flowGoneFailingState)) = None"
    by (simp add: example_defs)
  from missing_flow_counts_as_failure [OF found3 en3 idle3 gone3 q3 run_flowGonePaused] sv3 two
  have d: "map enabled (schedules flowGonePausedAfter) = [False]"
    by (auto simp: after_defs example_defs findById_raw_def)
  have e: "map pausedReason (schedules flowGonePausedAfter)
             = [Some ''Paused after 3 consecutive failures: Flow not found'']"
    by (simp add: after_defs)
  from a b c d e found gone sv found3 two run_flowGone run_flowGoneUnmarked run_flowGonePaused
  show ?thesis
    by (simp add: after_defs example_defs findById_raw_def newEvents_def)
qed

text \<open>C2 as written (no state change, no failure recorded) fails on the example.\<close>

theorem missing_flow_changes_the_schedule:
  "executeScheduledFlow quietEnv ''s1'' flowGoneState = (Inr (), flowGoneAfter)
   \<and> map enabled (schedules flowGoneState) = [True]
   \<and> flows flowGoneState = []
   \<and> map lastExecutionStatus (schedules flowGoneState) = [''none'']
   \<and> map lastExecutionStatus (schedules flowGoneAfter) = [''failed'']
   \<and> map consecutiveFailures (schedules flowGoneState) = [None]
   \<and> map consecutiveFailures (schedules flowGoneAfter) = [Some 1]"
  using run_flowGone by (simp add: after_defs example_defs)

section \<open>Exceptions that leave the handler\<close>

text \<open>
  An exception leaves \<open>executeScheduledFlow\<close> only from the \<open>catch\<close> block: from its
  \<open>schedule.save()\<close> or its \<open>calculateNextExecution\<close>. When those two never throw, the
  handler returns normally whatever else throws.
\<close>

lemma escape_comes_from_the_handler:
  assumes "executeScheduledFlow env k st = (Inl e, st')"
  shows "\<exists>err s1 st1. tryBlock env k st = (Inl err, Some s1, st1)
           \<and> recordFailure env k err s1 (effect (Log (ScheduleFailed k err)) st1) = (Inl e, st')
           \<and> ((\<exists>n. saveFails env n = Some e) \<or> (\<exists>n x. calculateNextExecution env n x = Inl e))"
proof -
  obtain r sv st1 where t: "tryBlock env k st = (r, sv, st1)"
    by (cases "tryBlock env k st") auto
  from assms obtain err s1 where r: "r = Inl err" "sv = Some s1"
    and f: "recordFailure env k err s1 (effect (Log (ScheduleFailed k err)) st1) = (Inl e, st')"
    by (auto simp: executeScheduledFlow_def t Let_def split: sum.splits option.splits)
  from recordFailure_escapes [OF f] t r f show ?thesis by blast
qed

lemma quiet_handler_contains_everything:
  assumes "\<forall>n. saveFails env n = None"
    and "\<forall>n x. \<exists>t. calculateNextExecution env n x = Inr t"
  shows "fst (executeScheduledFlow env k st) = Inr ()"
proof (cases "fst (executeScheduledFlow env k st)")
  case (Inl e)
  then have "executeScheduledFlow env k st = (Inl e, snd (executeScheduledFlow env k st))"
    by (simp add: prod_eq_iff)
  from escape_comes_from_the_handler [OF this] assms show ?thesis
    by (metis option.distinct(1) sum.distinct(1))
next
  case (Inr u)
  then show ?thesis by simp
qed

text \<open>
  C1 fails on the code: the flow executor throws and the store rejects the save of the
  \<open>catch\<close> block. The exception of that save leaves the handler, and the persisted
  schedule keeps isCurrentlyRunning=true with neither a success nor a failure recorded.
\<close>

theorem handler_exception_escapes:
  "executeScheduledFlow storeLostEnv ''s1'' registeredState
     = (Inl (Error ''store unavailable''), stuckState)
   \<and> map isCurrentlyRunning (schedules stuckState) = [True]
   \<and> map lastExecutionStatus (schedules stuckState) = [''none'']
   \<and> map lastExecutionStatus (schedules registeredState) = [''none'']"
  using run_stuck by (simp add: after_defs example_defs)

end
